theory Spec2Isabelle
  imports Complex_Main
begin

section \<open>Types and constants\<close>

text \<open>
  The component's numbers are JavaScript doubles. They are modelled as reals: the
  arithmetic below is the exact arithmetic the floating-point operations approximate,
  and \<open>Math.hypot\<close> is the Euclidean norm.
\<close>

datatype BoxPhase = Idle | Active | Gathering | Closing | Closed

record Particle =
  p_id :: nat
  p_word :: string
  p_x :: real
  p_y :: real
  p_vx :: real
  p_vy :: real

definition BOUND_W :: real where "BOUND_W = 160"
definition BOUNCE_H :: real where "BOUNCE_H = 160"
definition SPEED :: real where "SPEED = 35 / 100"
definition REP_DIST :: real where "REP_DIST = 60"
definition REP_FORCE :: real where "REP_FORCE = 25 / 100"

definition hypot :: "real \<Rightarrow> real \<Rightarrow> real" where
  "hypot a b = sqrt (a * a + b * b)"

section \<open>The particle simulator\<close>

text \<open>
  \<open>createParticles\<close> calls \<open>Math.random\<close> three times for each word, in the order
  angle, x, y. The draws are a parameter: \<open>rnd k\<close> is the value of the \<open>k\<close>-th call.
\<close>

definition rand :: "real \<Rightarrow> real \<Rightarrow> real \<Rightarrow> real" where
  "rand r lo hi = r * (hi - lo) + lo"

fun createFrom :: "(nat \<Rightarrow> real) \<Rightarrow> nat \<Rightarrow> string list \<Rightarrow> Particle list" where
  "createFrom rnd i [] = []"
| "createFrom rnd i (w # ws) =
     (let angle = rand (rnd (3 * i)) 0 (pi * 2) in
      \<lparr> p_id = i, p_word = w,
        p_x = rand (rnd (3 * i + 1)) 16 (BOUND_W - 16),
        p_y = rand (rnd (3 * i + 2)) 16 (BOUNCE_H - 16),
        p_vx = cos angle * SPEED, p_vy = sin angle * SPEED \<rparr>
      # createFrom rnd (Suc i) ws)"

definition createParticles :: "(nat \<Rightarrow> real) \<Rightarrow> string list \<Rightarrow> Particle list" where
  "createParticles rnd words = createFrom rnd 0 words"

text \<open>The four wall tests of \<open>animate\<close>, in the source's order, each on the particle
  as the previous test left it.\<close>

definition wall :: "Particle \<Rightarrow> Particle" where
  "wall p =
     (let p1 = (if p_x p \<le> 0 then p\<lparr>p_x := 0, p_vx := \<bar>p_vx p\<bar>\<rparr> else p);
          p2 = (if p_x p1 \<ge> BOUND_W then p1\<lparr>p_x := BOUND_W, p_vx := - \<bar>p_vx p1\<bar>\<rparr> else p1);
          p3 = (if p_y p2 \<le> 0 then p2\<lparr>p_y := 0, p_vy := \<bar>p_vy p2\<bar>\<rparr> else p2);
          p4 = (if p_y p3 \<ge> BOUNCE_H then p3\<lparr>p_y := BOUNCE_H, p_vy := - \<bar>p_vy p3\<bar>\<rparr> else p3)
      in p4)"

text \<open>The body of the inner loop for one pair: \<open>p\<close> is \<open>ps[i]\<close>, \<open>q\<close> is \<open>ps[j]\<close>.\<close>

definition repulse :: "Particle \<Rightarrow> Particle \<Rightarrow> Particle \<times> Particle" where
  "repulse p q =
     (let dx = p_x p - p_x q; dy = p_y p - p_y q; d = hypot dx dy in
      if d < REP_DIST \<and> d > 0 then
        (let f = ((REP_DIST - d) / REP_DIST) * REP_FORCE; nx = dx / d; ny = dy / d in
         (p\<lparr>p_vx := p_vx p + nx * f, p_vy := p_vy p + ny * f\<rparr>,
          q\<lparr>p_vx := p_vx q - nx * f, p_vy := p_vy q - ny * f\<rparr>))
      else (p, q))"

text \<open>The inner loop \<open>for j = i + 1 .. length - 1\<close>: \<open>p\<close> against the particles after it.\<close>

fun repel :: "Particle \<Rightarrow> Particle list \<Rightarrow> Particle \<times> Particle list" where
  "repel p [] = (p, [])"
| "repel p (q # qs) =
     (case repulse p q of (p', q') \<Rightarrow>
        (case repel p' qs of (p'', qs') \<Rightarrow> (p'', q' # qs')))"

definition normalise :: "Particle \<Rightarrow> Particle" where
  "normalise p =
     (let spd = hypot (p_vx p) (p_vy p) in
      if spd > 0 then p\<lparr>p_vx := (p_vx p / spd) * SPEED, p_vy := (p_vy p / spd) * SPEED\<rparr>
      else p)"

definition integrate :: "Particle \<Rightarrow> Particle" where
  "integrate p = p\<lparr>p_x := p_x p + p_vx p, p_y := p_y p + p_vy p\<rparr>"

text \<open>
  One frame. Iteration \<open>i\<close> of the outer loop touches \<open>ps[i]\<close> and the particles after
  it, never those before it, so the loop is a recursion on the remaining suffix.
\<close>

function animate :: "Particle list \<Rightarrow> Particle list" where
  "animate [] = []"
| "animate (p # rest) =
     (case repel (wall p) rest of (p', rest') \<Rightarrow>
        integrate (normalise p') # animate rest')"
  by pat_completeness auto
termination
proof (relation "measure length")
  show "wf (measure length)" by simp
next
  fix p :: Particle and rest p' rest'
  assume a: "(p', rest') = repel (wall p) rest"
  have "\<And>u u' r. repel u rest = (u', r) \<Longrightarrow> length r = length rest"
  proof (induction rest)
    case Nil
    then show ?case by simp
  next
    case (Cons q qs)
    obtain u1 q1 where r1: "repulse u q = (u1, q1)" by (cases "repulse u q")
    obtain u2 qs2 where r2: "repel u1 qs = (u2, qs2)" by (cases "repel u1 qs")
    from Cons.prems r1 r2 have "r = q1 # qs2" by simp
    with Cons.IH [OF r2] show ?case by simp
  qed
  from this [of "wall p" p' rest'] a have "length rest' = length rest" by simp
  then show "(rest', p # rest) \<in> measure length" by simp
qed

fun frames :: "nat \<Rightarrow> Particle list \<Rightarrow> Particle list" where
  "frames 0 ps = ps"
| "frames (Suc n) ps = frames n (animate ps)"

section \<open>The WordParticles component\<close>

text \<open>
  One instance per box. The refs of the component are the fields of the record.
  \<open>rafRef\<close> holds whether an animation frame is requested (the handle is not null);
  \<open>gatherTimer\<close> and \<open>closingTimer\<close> hold whether the timeout set by the last run of
  the gathering and of the closing effect is still pending. \<open>depPhase\<close> and
  \<open>depResetKey\<close> are the props the effects last ran with: React runs an effect again
  when one of its dependencies differs from the previous render.
\<close>

record WordParticles =
  particlesRef :: "Particle list"
  rafRef :: bool
  frozenRef :: "(real \<times> real) list option"
  gatherFired :: bool
  closingFired :: bool
  gatherTimer :: bool
  closingTimer :: bool
  depPhase :: BoxPhase
  depResetKey :: nat

text \<open>The effect on \<open>[resetKey]\<close>.\<close>

definition resetEffect :: "WordParticles \<Rightarrow> WordParticles" where
  "resetEffect w =
     w\<lparr>particlesRef := [], gatherFired := False, closingFired := False, frozenRef := None\<rparr>"

text \<open>The effect on \<open>[boxPhase, animate, resetKey]\<close> and its cleanup.\<close>

definition physicsEffect ::
  "(nat \<Rightarrow> real) \<Rightarrow> string list \<Rightarrow> BoxPhase \<Rightarrow> WordParticles \<Rightarrow> WordParticles" where
  "physicsEffect rnd words boxPhase w =
     (if boxPhase = Idle \<or> boxPhase = Active then
        w\<lparr>gatherFired := False, closingFired := False, frozenRef := None,
          particlesRef := (if particlesRef w = [] then createParticles rnd words
                           else particlesRef w),
          rafRef := True\<rparr>
      else w)"

definition physicsCleanup :: "WordParticles \<Rightarrow> WordParticles" where
  "physicsCleanup w = w\<lparr>rafRef := False\<rparr>"

text \<open>
  The effect on \<open>[boxPhase, onGatherDone]\<close>. Its cleanup clears the timeout the run
  has set; a run that set none leaves none pending, since the cleanup of the run before
  it has cleared any earlier one.
\<close>

definition gatheringEffect :: "BoxPhase \<Rightarrow> WordParticles \<Rightarrow> WordParticles" where
  "gatheringEffect boxPhase w =
     (if boxPhase \<noteq> Gathering then w
      else
        (let w1 = w\<lparr>rafRef := False,
                     frozenRef := Some (map (\<lambda>p. (p_x p, p_y p)) (particlesRef w))\<rparr>
         in if \<not> gatherFired w1 then w1\<lparr>gatherFired := True, gatherTimer := True\<rparr>
            else w1))"

definition gatheringCleanup :: "WordParticles \<Rightarrow> WordParticles" where
  "gatheringCleanup w = w\<lparr>gatherTimer := False\<rparr>"

text \<open>The effect on \<open>[boxPhase, onClosingDone]\<close>.\<close>

definition closingEffect :: "BoxPhase \<Rightarrow> WordParticles \<Rightarrow> WordParticles" where
  "closingEffect boxPhase w =
     (if boxPhase \<noteq> Closing then w
      else if \<not> closingFired w then w\<lparr>closingFired := True, closingTimer := True\<rparr>
      else w)"

definition closingCleanup :: "WordParticles \<Rightarrow> WordParticles" where
  "closingCleanup w = w\<lparr>closingTimer := False\<rparr>"

text \<open>
  A render of the parent passes fresh \<open>onGatherDone\<close> and \<open>onClosingDone\<close> closures, so
  the gathering and the closing effect run again on every such render; the other two
  run when their dependencies changed. The cleanups of the effects that run again come
  first, then the effects in the order of the source.
\<close>

definition renderWordParticles ::
  "(nat \<Rightarrow> real) \<Rightarrow> string list \<Rightarrow> BoxPhase \<Rightarrow> nat \<Rightarrow> WordParticles \<Rightarrow> WordParticles" where
  "renderWordParticles rnd words boxPhase resetKey w =
     (let phaseChanged = (boxPhase \<noteq> depPhase w);
          keyChanged = (resetKey \<noteq> depResetKey w);
          w1 = (if (phaseChanged \<or> keyChanged) \<and> (depPhase w = Idle \<or> depPhase w = Active)
                then physicsCleanup w else w);
          w2 = closingCleanup (gatheringCleanup w1);
          w3 = (if keyChanged then resetEffect w2 else w2);
          w4 = (if phaseChanged \<or> keyChanged then physicsEffect rnd words boxPhase w3 else w3);
          w5 = closingEffect boxPhase (gatheringEffect boxPhase w4)
      in w5\<lparr>depPhase := boxPhase, depResetKey := resetKey\<rparr>)"

definition mountWordParticles ::
  "(nat \<Rightarrow> real) \<Rightarrow> string list \<Rightarrow> BoxPhase \<Rightarrow> nat \<Rightarrow> WordParticles" where
  "mountWordParticles rnd words boxPhase resetKey =
     closingEffect boxPhase (gatheringEffect boxPhase (physicsEffect rnd words boxPhase
       (resetEffect
          \<lparr>particlesRef = [], rafRef = False, frozenRef = None, gatherFired = False,
           closingFired = False, gatherTimer = False, closingTimer = False,
           depPhase = boxPhase, depResetKey = resetKey\<rparr>)))"

text \<open>The frame callback \<open>animate\<close> runs only while its request is pending, and
  requests the next frame.\<close>

definition animationFrame :: "WordParticles \<Rightarrow> WordParticles" where
  "animationFrame w = (if rafRef w then w\<lparr>particlesRef := animate (particlesRef w)\<rparr> else w)"

text \<open>
  The position a particle is drawn at: \<open>frozen[p.id]\<close> during gathering and closing when
  a snapshot exists, the live position otherwise. Reading past the end of the snapshot
  is a TypeError in the source, \<open>None\<close> here.
\<close>

definition renderPosition :: "BoxPhase \<Rightarrow> WordParticles \<Rightarrow> Particle \<Rightarrow> (real \<times> real) option" where
  "renderPosition boxPhase w p =
     (case frozenRef w of
        Some frozen \<Rightarrow>
          if boxPhase = Gathering \<or> boxPhase = Closing
          then (if p_id p < length frozen then Some (frozen ! p_id p) else None)
          else Some (p_x p, p_y p)
      | None \<Rightarrow> Some (p_x p, p_y p))"

text \<open>\<open>Box\<close> mounts \<open>WordParticles\<close> while \<open>boxPhase\<close> is not \<open>closed\<close>.\<close>

definition renderBox ::
  "(nat \<Rightarrow> real) \<Rightarrow> string list \<Rightarrow> BoxPhase \<Rightarrow> nat \<Rightarrow> WordParticles option
     \<Rightarrow> WordParticles option" where
  "renderBox rnd words boxPhase resetKey wp =
     (if boxPhase \<noteq> Closed then
        Some (case wp of
                None \<Rightarrow> mountWordParticles rnd words boxPhase resetKey
              | Some w \<Rightarrow> renderWordParticles rnd words boxPhase resetKey w)
      else None)"

section \<open>The vignette scenes\<close>

record StickFigureScene =
  sf_sceneKey :: nat
  sf_done :: bool
  sf_timer :: bool
  sf_active :: bool

definition stickEffect :: "bool \<Rightarrow> StickFigureScene \<Rightarrow> StickFigureScene" where
  "stickEffect active s =
     (if active then s\<lparr>sf_done := False, sf_sceneKey := sf_sceneKey s + 1, sf_timer := True\<rparr>
      else s)"

definition stickCleanup :: "StickFigureScene \<Rightarrow> StickFigureScene" where
  "stickCleanup s = s\<lparr>sf_timer := False\<rparr>"

definition mountStick :: "bool \<Rightarrow> StickFigureScene" where
  "mountStick active =
     stickEffect active \<lparr>sf_sceneKey = 0, sf_done = False, sf_timer = False, sf_active = active\<rparr>"

text \<open>The effect depends on \<open>[active]\<close> alone: a render with the same \<open>active\<close> runs nothing.\<close>

definition renderStick :: "bool \<Rightarrow> StickFigureScene \<Rightarrow> StickFigureScene" where
  "renderStick active s =
     (if active = sf_active s then s
      else (stickEffect active (stickCleanup s))\<lparr>sf_active := active\<rparr>)"

text \<open>The 4500 ms timeout: \<open>setDone(true)\<close>; the call of \<open>onDone\<close> is the caller's.\<close>

definition stickTimeout :: "StickFigureScene \<Rightarrow> StickFigureScene" where
  "stickTimeout s = s\<lparr>sf_done := True, sf_timer := False\<rparr>"

definition boxStick :: "bool \<Rightarrow> StickFigureScene option \<Rightarrow> StickFigureScene option" where
  "boxStick showScene sc =
     (if showScene then
        Some (case sc of None \<Rightarrow> mountStick True | Some s \<Rightarrow> renderStick True s)
      else None)"

record DefineScene =
  ds_sceneKey :: nat
  ds_done :: bool
  ds_tDone :: bool
  ds_tUnmount :: bool
  ds_active :: bool

definition defineEffect :: "bool \<Rightarrow> DefineScene \<Rightarrow> DefineScene" where
  "defineEffect active s =
     (if active then
        s\<lparr>ds_done := False, ds_sceneKey := ds_sceneKey s + 1, ds_tDone := True, ds_tUnmount := True\<rparr>
      else s)"

definition defineCleanup :: "DefineScene \<Rightarrow> DefineScene" where
  "defineCleanup s = s\<lparr>ds_tDone := False, ds_tUnmount := False\<rparr>"

definition mountDefine :: "bool \<Rightarrow> DefineScene" where
  "mountDefine active =
     defineEffect active
       \<lparr>ds_sceneKey = 0, ds_done = False, ds_tDone = False, ds_tUnmount = False, ds_active = active\<rparr>"

definition renderDefine :: "bool \<Rightarrow> DefineScene \<Rightarrow> DefineScene" where
  "renderDefine active s =
     (if active = ds_active s then s
      else (defineEffect active (defineCleanup s))\<lparr>ds_active := active\<rparr>)"

definition boxDefine :: "bool \<Rightarrow> DefineScene option \<Rightarrow> DefineScene option" where
  "boxDefine showDefineScene sc =
     (if showDefineScene then
        Some (case sc of None \<Rightarrow> mountDefine True | Some s \<Rightarrow> renderDefine True s)
      else None)"

section \<open>ScreensaverHero\<close>

text \<open>
  The state of the top-level component, then its children: the \<open>WordParticles\<close> of each
  box (\<open>None\<close> while unmounted), the two scenes, and the number of pending timeouts set
  by \<open>handleDefineDone\<close>, which no cleanup clears.
\<close>

record ScreensaverHero =
  phases :: "BoxPhase list"
  defineSceneActive :: bool
  isShaking :: bool
  resetKey :: nat
  boxes :: "WordParticles option list"
  stickScene :: "StickFigureScene option"
  defineScene :: "DefineScene option"
  shakeTimers :: nat

definition BOX_DATA :: "(string \<times> string \<times> string \<times> string list) list" where
  "BOX_DATA =
     [(''define'', ''DEFINE'', ''DEFINED'',
        [''Assumptions'', ''Context'', ''History'', ''Processes'', ''Problem'', ''Constraints'']),
      (''decide'', ''DECIDE'', ''DECIDED'',
        [''Options'', ''Trade-offs'', ''Modeling'', ''ROI'', ''Risk'', ''Sensitivity'']),
      (''deploy'', ''DEPLOY'', ''DEPLOYED'',
        [''Alignment'', ''Ownership'', ''Sequencing'', ''Execution'', ''Measurement'', ''Feedback''])]"

definition handleDeployDone :: "ScreensaverHero \<Rightarrow> ScreensaverHero" where
  "handleDeployDone h = h\<lparr>defineSceneActive := True\<rparr>"

text \<open>\<open>handleDefineDone\<close> sets the shake flag and a 500 ms timeout; \<open>shakeTimeout\<close> is
  the callback of that timeout.\<close>

definition handleDefineDone :: "ScreensaverHero \<Rightarrow> ScreensaverHero" where
  "handleDefineDone h = h\<lparr>isShaking := True, shakeTimers := shakeTimers h + 1\<rparr>"

definition shakeTimeout :: "ScreensaverHero \<Rightarrow> ScreensaverHero" where
  "shakeTimeout h =
     h\<lparr>isShaking := False, defineSceneActive := False, resetKey := resetKey h + 1,
       phases := [Active, Idle, Idle]\<rparr>"

text \<open>
  The phase handlers are called with the index of a rendered box, which is below the
  length of \<open>phases\<close>: an assignment past the end, which would extend the JavaScript
  array, does not occur, and \<open>step\<close> below dispatches no event for a box that does
  not exist.
\<close>

definition handleClick :: "nat \<Rightarrow> ScreensaverHero \<Rightarrow> ScreensaverHero" where
  "handleClick i h = h\<lparr>phases := (phases h)[i := Gathering]\<rparr>"

definition handleGatherDone :: "nat \<Rightarrow> ScreensaverHero \<Rightarrow> ScreensaverHero" where
  "handleGatherDone i h = h\<lparr>phases := (phases h)[i := Closing]\<rparr>"

definition handleClosingDone :: "nat \<Rightarrow> ScreensaverHero \<Rightarrow> ScreensaverHero" where
  "handleClosingDone i h =
     (let n = (phases h)[i := Closed];
          n' = (if i + 1 < length n then n[i + 1 := Active] else n)
      in h\<lparr>phases := n'\<rparr>)"

definition allClosed :: "ScreensaverHero \<Rightarrow> bool" where
  "allClosed h = list_all (\<lambda>p. p = Closed) (phases h)"

text \<open>The props \<open>showScene\<close> and \<open>showDefineScene\<close> that \<open>ScreensaverHero\<close> passes to a box.\<close>

definition showScene :: "ScreensaverHero \<Rightarrow> string \<times> string \<times> string \<times> string list \<Rightarrow> bool" where
  "showScene h box \<longleftrightarrow> fst box = ''deploy'' \<and> allClosed h"

definition showDefineScene ::
  "ScreensaverHero \<Rightarrow> string \<times> string \<times> string \<times> string list \<Rightarrow> bool" where
  "showDefineScene h box \<longleftrightarrow> fst box = ''define'' \<and> defineSceneActive h"

text \<open>
  A render of \<open>ScreensaverHero\<close>: \<open>BOX_DATA.map\<close> renders box \<open>i\<close> with \<open>phases[i]\<close>.
  A box mounts its \<open>StickFigureScene\<close> only while \<open>showScene\<close> holds and its
  \<open>DefineScene\<close> only while \<open>showDefineScene\<close> holds; these are false on every box but
  the third (\<open>deploy\<close>) and the first (\<open>define\<close>), whose scenes are the two kept in the
  state. \<open>rnd i\<close> are the draws of \<open>Math.random\<close> for box \<open>i\<close> during this render.
\<close>

fun renderBoxes ::
  "(nat \<Rightarrow> nat \<Rightarrow> real) \<Rightarrow> ScreensaverHero \<Rightarrow> nat
     \<Rightarrow> (string \<times> string \<times> string \<times> string list) list \<Rightarrow> WordParticles option list" where
  "renderBoxes rnd h i [] = []"
| "renderBoxes rnd h i (box # rest) =
     renderBox (rnd i) (snd (snd (snd box))) (phases h ! i) (resetKey h) (boxes h ! i)
       # renderBoxes rnd h (Suc i) rest"

definition render :: "(nat \<Rightarrow> nat \<Rightarrow> real) \<Rightarrow> ScreensaverHero \<Rightarrow> ScreensaverHero" where
  "render rnd h =
     h\<lparr>boxes := renderBoxes rnd h 0 BOX_DATA,
       stickScene := boxStick (showScene h (BOX_DATA ! 2)) (stickScene h),
       defineScene := boxDefine (showDefineScene h (BOX_DATA ! 0)) (defineScene h)\<rparr>"

definition init :: "(nat \<Rightarrow> nat \<Rightarrow> real) \<Rightarrow> ScreensaverHero" where
  "init rnd =
     render rnd
       \<lparr>phases = [Active, Idle, Idle], defineSceneActive = False, isShaking = False,
        resetKey = 0, boxes = [None, None, None], stickScene = None, defineScene = None,
        shakeTimers = 0\<rparr>"

text \<open>
  What can happen to the screen: a click on box \<open>i\<close>, the frame callback of box \<open>i\<close>, and
  each of the timeouts. An event whose handler is not attached, or whose request or
  timeout is not pending, changes nothing. \<open>Box\<close> attaches \<open>onClick\<close> only while the box
  is active. A state setter that sets the value already held renders nothing;
  \<open>setPhases\<close> always passes a new array.
\<close>

datatype Event =
  Click nat | Frame nat | GatherTimeout nat | ClosingTimeout nat
  | StickTimeout | DefineDoneTimeout | DefineUnmountTimeout | ShakeTimeout

fun step :: "(nat \<Rightarrow> nat \<Rightarrow> real) \<Rightarrow> Event \<Rightarrow> ScreensaverHero \<Rightarrow> ScreensaverHero" where
  "step rnd (Click i) h =
     (if i < length (phases h) \<and> phases h ! i = Active then render rnd (handleClick i h) else h)"
| "step rnd (Frame i) h =
     (if i < length (boxes h) then
        (case boxes h ! i of
           Some w \<Rightarrow> h\<lparr>boxes := (boxes h)[i := Some (animationFrame w)]\<rparr>
         | None \<Rightarrow> h)
      else h)"
| "step rnd (GatherTimeout i) h =
     (if i < length (boxes h) then
        (case boxes h ! i of
           Some w \<Rightarrow>
             if gatherTimer w then
               render rnd (handleGatherDone i
                 (h\<lparr>boxes := (boxes h)[i := Some (w\<lparr>gatherTimer := False\<rparr>)]\<rparr>))
             else h
         | None \<Rightarrow> h)
      else h)"
| "step rnd (ClosingTimeout i) h =
     (if i < length (boxes h) then
        (case boxes h ! i of
           Some w \<Rightarrow>
             if closingTimer w then
               render rnd (handleClosingDone i
                 (h\<lparr>boxes := (boxes h)[i := Some (w\<lparr>closingTimer := False\<rparr>)]\<rparr>))
             else h
         | None \<Rightarrow> h)
      else h)"
| "step rnd StickTimeout h =
     (case stickScene h of
        Some s \<Rightarrow>
          if sf_timer s then
            (let h' = h\<lparr>stickScene := Some (stickTimeout s)\<rparr>
             in if defineSceneActive h' then h' else render rnd (handleDeployDone h'))
          else h
      | None \<Rightarrow> h)"
| "step rnd DefineDoneTimeout h =
     (case defineScene h of
        Some s \<Rightarrow>
          if ds_tDone s then
            (let h' = h\<lparr>defineScene := Some (s\<lparr>ds_tDone := False\<rparr>)\<rparr>
             in if isShaking h' then handleDefineDone h' else render rnd (handleDefineDone h'))
          else h
      | None \<Rightarrow> h)"
| "step rnd DefineUnmountTimeout h =
     (case defineScene h of
        Some s \<Rightarrow>
          if ds_tUnmount s then h\<lparr>defineScene := Some (s\<lparr>ds_done := True, ds_tUnmount := False\<rparr>)\<rparr>
          else h
      | None \<Rightarrow> h)"
| "step rnd ShakeTimeout h =
     (if 0 < shakeTimers h then render rnd (shakeTimeout (h\<lparr>shakeTimers := shakeTimers h - 1\<rparr>))
      else h)"

fun run :: "(nat \<Rightarrow> nat \<Rightarrow> real) \<Rightarrow> Event list \<Rightarrow> ScreensaverHero \<Rightarrow> ScreensaverHero" where
  "run rnd [] h = h"
| "run rnd (e # es) h = run rnd es (step rnd e h)"

inductive reachable :: "ScreensaverHero \<Rightarrow> bool" where
  reach_init: "reachable (init rnd)"
| reach_step: "reachable h \<Longrightarrow> reachable (step rnd e h)"

section \<open>Definitions for the statements\<close>

text \<open>
  The impulse as the specification words it: for a pair at distance \<open>d\<close> with
  \<open>0 < d < REP_DIST\<close>, magnitude \<open>((REP_DIST - d) / REP_DIST) * REP_FORCE\<close> along the
  normalised \<open>p - q\<close> direction; nothing otherwise.
\<close>

definition spec_impulse :: "Particle \<Rightarrow> Particle \<Rightarrow> real \<times> real" where
  "spec_impulse p q =
     (let dx = p_x p - p_x q; dy = p_y p - p_y q; d = sqrt (dx\<^sup>2 + dy\<^sup>2) in
      if 0 < d \<and> d < REP_DIST
      then (((REP_DIST - d) / REP_DIST) * REP_FORCE * (dx / d),
            ((REP_DIST - d) / REP_DIST) * REP_FORCE * (dy / d))
      else (0, 0))"

text \<open>Two particles that differ in velocity at most.\<close>

definition same_place :: "Particle \<Rightarrow> Particle \<Rightarrow> bool" where
  "same_place p q \<longleftrightarrow> p_x p = p_x q \<and> p_y p = p_y q \<and> p_id p = p_id q \<and> p_word p = p_word q"

text \<open>What one frame does to a particle, whatever the others are.\<close>

definition frame_rel :: "Particle \<Rightarrow> Particle \<Rightarrow> bool" where
  "frame_rel p r \<longleftrightarrow>
     p_x r = p_x (wall p) + p_vx r \<and> p_y r = p_y (wall p) + p_vy r \<and>
     (p_vx r = 0 \<and> p_vy r = 0 \<or> hypot (p_vx r) (p_vy r) = SPEED) \<and>
     p_id r = p_id p \<and> p_word r = p_word p"

text \<open>A particle near the left wall, moving left.\<close>

definition lone :: Particle where
  "lone = \<lparr>p_id = 0, p_word = ''Risk'', p_x = 1 / 10, p_y = 80, p_vx = - (35 / 100), p_vy = 0\<rparr>"

section \<open>Invariants of the screen\<close>

text \<open>
  The positions of a particle list, and the property that the ids of the list are its
  indices. \<open>box_ok\<close> ties the refs of a box's \<open>WordParticles\<close> to the box's phase;
  \<open>in_loop\<close> and \<open>in_vignette\<close> are the two stages of a loop; \<open>box_trans\<close> is what one step
  may do to one box.
\<close>

definition positions :: "Particle list \<Rightarrow> (real \<times> real) list" where
  "positions ps = map (\<lambda>p. (p_x p, p_y p)) ps"

definition ids_ok :: "Particle list \<Rightarrow> bool" where
  "ids_ok ps \<longleftrightarrow> map p_id ps = [0..<length ps]"

definition box_ok :: "nat \<Rightarrow> BoxPhase \<Rightarrow> WordParticles option \<Rightarrow> bool" where
  "box_ok rk ph wp =
     (case wp of
        None \<Rightarrow> ph = Closed
      | Some w \<Rightarrow>
          depPhase w = ph \<and> depResetKey w = rk \<and> ids_ok (particlesRef w) \<and>
          (case ph of
             Closed \<Rightarrow> False
           | Gathering \<Rightarrow>
               \<not> rafRef w \<and> frozenRef w = Some (positions (particlesRef w)) \<and>
               gatherFired w \<and> gatherTimer w \<and> \<not> closingFired w \<and> \<not> closingTimer w
           | Closing \<Rightarrow>
               \<not> rafRef w \<and> frozenRef w = Some (positions (particlesRef w)) \<and>
               gatherFired w \<and> \<not> gatherTimer w \<and> closingFired w \<and> closingTimer w
           | _ \<Rightarrow>
               rafRef w \<and> frozenRef w = None \<and>
               \<not> gatherFired w \<and> \<not> gatherTimer w \<and> \<not> closingFired w \<and> \<not> closingTimer w))"

definition in_loop :: "ScreensaverHero \<Rightarrow> bool" where
  "in_loop h \<longleftrightarrow>
     (\<exists>X. (X = Active \<or> X = Gathering \<or> X = Closing) \<and>
          (phases h = [X, Idle, Idle] \<or> phases h = [Closed, X, Idle] \<or>
           phases h = [Closed, Closed, X])) \<and>
     stickScene h = None \<and> defineScene h = None \<and> \<not> defineSceneActive h \<and>
     \<not> isShaking h \<and> shakeTimers h = 0"

definition in_vignette :: "ScreensaverHero \<Rightarrow> bool" where
  "in_vignette h \<longleftrightarrow>
     phases h = [Closed, Closed, Closed] \<and>
     (\<exists>s. stickScene h = Some s \<and> sf_active s \<and> sf_sceneKey s = 1 \<and>
        (sf_timer s \<and> \<not> sf_done s \<and> \<not> defineSceneActive h \<and> defineScene h = None \<and>
           \<not> isShaking h \<and> shakeTimers h = 0
         \<or> \<not> sf_timer s \<and> sf_done s \<and> defineSceneActive h \<and>
           (\<exists>d. defineScene h = Some d \<and> ds_active d \<and> ds_sceneKey d = 1 \<and>
                ds_tUnmount d = (\<not> ds_done d) \<and>
                (ds_tDone d \<and> \<not> isShaking h \<and> shakeTimers h = 0
                 \<or> \<not> ds_tDone d \<and> isShaking h \<and> shakeTimers h = 1))))"

definition hero_inv :: "ScreensaverHero \<Rightarrow> bool" where
  "hero_inv h \<longleftrightarrow>
     (in_loop h \<or> in_vignette h) \<and> list_all2 (box_ok (resetKey h)) (phases h) (boxes h)"

definition box_trans ::
  "BoxPhase \<Rightarrow> WordParticles option \<Rightarrow> BoxPhase \<Rightarrow> WordParticles option \<Rightarrow> bool" where
  "box_trans a b a' b' \<longleftrightarrow>
     (a' = a \<and> (b' = b \<or> (case b of Some w \<Rightarrow> b' = Some (animationFrame w) | None \<Rightarrow> False))) \<or>
     (case (b, b') of
        (Some w, Some w') \<Rightarrow>
          (a = Idle \<and> a' = Active \<and> frozenRef w' = None) \<or>
          (a = Active \<and> a' = Gathering \<and> particlesRef w' = particlesRef w \<and>
             frozenRef w' = Some (positions (particlesRef w))) \<or>
          (a = Gathering \<and> a' = Closing \<and> particlesRef w' = particlesRef w \<and>
             frozenRef w' = frozenRef w)
      | (Some w, None) \<Rightarrow> a = Closing \<and> a' = Closed
      | (None, Some w') \<Rightarrow>
          a = Closed \<and> (a' = Idle \<or> a' = Active) \<and> frozenRef w' = None \<and>
          (\<exists>rnd words. particlesRef w' = createParticles rnd words)
      | (None, None) \<Rightarrow> False)"

definition step_ok :: "ScreensaverHero \<Rightarrow> ScreensaverHero \<Rightarrow> bool" where
  "step_ok h h' \<longleftrightarrow>
     hero_inv h' \<and>
     list_all2 (\<lambda>(a, b) (a', b'). box_trans a b a' b')
       (zip (phases h) (boxes h)) (zip (phases h') (boxes h'))"

text \<open>The three events that take box \<open>i\<close> from active to closed.\<close>

definition cycle :: "nat \<Rightarrow> Event list" where
  "cycle i = [Click i, GatherTimeout i, ClosingTimeout i]"

section \<open>The particle simulator: proofs\<close>

lemma hypot_nonneg: "0 \<le> hypot a b"
  by (simp add: hypot_def)

lemma hypot_zero: "hypot a b = 0 \<longleftrightarrow> a = 0 \<and> b = 0"
  by (simp add: hypot_def add_nonneg_eq_0_iff)

lemma hypot_power2: "hypot a b = sqrt (a\<^sup>2 + b\<^sup>2)"
  by (simp add: hypot_def power2_eq_square)

lemma hypot_scale: "0 \<le> c \<Longrightarrow> hypot (a * c) (b * c) = hypot a b * c"
proof -
  assume c: "0 \<le> c"
  have "(a * c) * (a * c) + (b * c) * (b * c) = (a * a + b * b) * (c * c)"
    by (simp add: algebra_simps)
  then have "hypot (a * c) (b * c) = sqrt (a * a + b * b) * sqrt (c * c)"
    by (simp add: hypot_def real_sqrt_mult)
  with c show ?thesis by (simp add: hypot_def)
qed

lemma hypot_unit: "0 < hypot a b \<Longrightarrow> hypot (a / hypot a b) (b / hypot a b) = 1"
proof -
  assume h: "0 < hypot a b"
  have "hypot (a * inverse (hypot a b)) (b * inverse (hypot a b)) = hypot a b * inverse (hypot a b)"
    by (rule hypot_scale) (use h in simp)
  with h show ?thesis by (simp add: divide_inverse)
qed

lemma hypot_component: "\<bar>a\<bar> \<le> hypot a b \<and> \<bar>b\<bar> \<le> hypot a b"
  by (simp add: hypot_power2 real_sqrt_sum_squares_ge1 real_sqrt_sum_squares_ge2)

lemma normalise_place: "same_place (normalise p) p"
  by (simp add: normalise_def same_place_def Let_def)

lemma normalise_speed:
  "p_vx (normalise p) = 0 \<and> p_vy (normalise p) = 0 \<or>
   hypot (p_vx (normalise p)) (p_vy (normalise p)) = SPEED"
proof (cases "0 < hypot (p_vx p) (p_vy p)")
  case True
  have "hypot (p_vx p / hypot (p_vx p) (p_vy p) * SPEED) (p_vy p / hypot (p_vx p) (p_vy p) * SPEED)
        = hypot (p_vx p / hypot (p_vx p) (p_vy p)) (p_vy p / hypot (p_vx p) (p_vy p)) * SPEED"
    by (rule hypot_scale) (simp add: SPEED_def)
  with True show ?thesis by (simp add: normalise_def Let_def hypot_unit)
next
  case False
  with hypot_nonneg [of "p_vx p" "p_vy p"] have "hypot (p_vx p) (p_vy p) = 0" by simp
  then show ?thesis by (simp add: normalise_def Let_def hypot_zero)
qed

lemma wall_x:
  "p_x (wall p) = (if p_x p \<le> 0 then 0 else if p_x p \<ge> BOUND_W then BOUND_W else p_x p)"
  by (simp add: wall_def Let_def BOUND_W_def)

lemma wall_y:
  "p_y (wall p) = (if p_y p \<le> 0 then 0 else if p_y p \<ge> BOUNCE_H then BOUNCE_H else p_y p)"
  by (simp add: wall_def Let_def BOUNCE_H_def)

lemma wall_id: "p_id (wall p) = p_id p" "p_word (wall p) = p_word p"
  by (simp_all add: wall_def Let_def)

lemma wall_place: "same_place p q \<Longrightarrow> same_place (wall p) (wall q)"
  by (simp add: same_place_def wall_x wall_y wall_id)

lemma wall_bounds:
  "0 \<le> p_x (wall p)" "p_x (wall p) \<le> BOUND_W" "0 \<le> p_y (wall p)" "p_y (wall p) \<le> BOUNCE_H"
  by (simp_all add: wall_x wall_y BOUND_W_def BOUNCE_H_def)

lemma repulse_place: "repulse p q = (p', q') \<Longrightarrow> same_place p' p \<and> same_place q' q"
  by (auto simp: repulse_def same_place_def Let_def split: if_splits)

lemma repel_place:
  "repel p qs = (p', qs') \<Longrightarrow> same_place p' p \<and> list_all2 same_place qs' qs"
proof (induction qs arbitrary: p p' qs')
  case Nil
  then show ?case by (simp add: same_place_def)
next
  case (Cons q qs)
  obtain u1 q1 where r1: "repulse p q = (u1, q1)" by (cases "repulse p q")
  obtain u2 qs2 where r2: "repel u1 qs = (u2, qs2)" by (cases "repel u1 qs")
  from Cons.prems r1 r2 have eq: "p' = u2" "qs' = q1 # qs2" by simp_all
  from repulse_place [OF r1] Cons.IH [OF r2] eq show ?case
    by (simp add: same_place_def)
qed

lemma frame_rel_place: "same_place p q \<Longrightarrow> frame_rel p r \<Longrightarrow> frame_rel q r"
  using wall_place [of p q] by (simp add: frame_rel_def same_place_def)

lemma frame_rel_step: "same_place u (wall p) \<Longrightarrow> frame_rel p (integrate (normalise u))"
  using normalise_speed [of u] normalise_place [of u]
  by (simp add: frame_rel_def integrate_def same_place_def wall_id)

lemma animate_rel: "list_all2 frame_rel ps (animate ps)"
proof (induction ps rule: animate.induct)
  case 1
  then show ?case by simp
next
  case (2 p rest)
  obtain p' rest' where r: "repel (wall p) rest = (p', rest')" by (cases "repel (wall p) rest")
  from repel_place [OF r] have pl: "same_place p' (wall p)" "list_all2 same_place rest' rest"
    by simp_all
  from "2.IH" [OF r [symmetric]] have ih: "list_all2 frame_rel rest' (animate rest')" .
  have "list_all2 frame_rel rest (animate rest')"
  proof (rule list_all2_all_nthI)
    show "length rest = length (animate rest')"
      using list_all2_lengthD [OF pl(2)] list_all2_lengthD [OF ih] by simp
  next
    fix n assume n: "n < length rest"
    with pl(2) have "same_place (rest' ! n) (rest ! n)"
      by (simp add: list_all2_conv_all_nth)
    moreover from n pl(2) ih have "frame_rel (rest' ! n) (animate rest' ! n)"
      by (simp add: list_all2_conv_all_nth)
    ultimately show "frame_rel (rest ! n) (animate rest' ! n)"
      by (rule frame_rel_place)
  qed
  with frame_rel_step [OF pl(1)] r show ?case by simp
qed

lemma hypot_axis: "hypot a 0 = \<bar>a\<bar>"
  by (simp add: hypot_def)

lemma spec_impulse_hypot:
  "spec_impulse p q =
     (let dx = p_x p - p_x q; dy = p_y p - p_y q; d = hypot dx dy in
      if d < REP_DIST \<and> d > 0
      then (dx / d * (((REP_DIST - d) / REP_DIST) * REP_FORCE),
            dy / d * (((REP_DIST - d) / REP_DIST) * REP_FORCE))
      else (0, 0))"
  by (simp add: spec_impulse_def hypot_power2 Let_def mult.commute conj_commute)

lemma spec_impulse_place:
  "same_place p' p \<Longrightarrow> same_place q' q \<Longrightarrow> spec_impulse p' q' = spec_impulse p q"
  by (simp add: spec_impulse_def same_place_def)

lemma repulse_impulse:
  "repulse p q =
     (p\<lparr>p_vx := p_vx p + fst (spec_impulse p q), p_vy := p_vy p + snd (spec_impulse p q)\<rparr>,
      q\<lparr>p_vx := p_vx q - fst (spec_impulse p q), p_vy := p_vy q - snd (spec_impulse p q)\<rparr>)"
  by (simp add: repulse_def spec_impulse_hypot Let_def)

lemma repel_impulse:
  "repel p qs = (p', qs') \<Longrightarrow>
     p_vx p' = p_vx p + (\<Sum>q\<leftarrow>qs. fst (spec_impulse p q)) \<and>
     p_vy p' = p_vy p + (\<Sum>q\<leftarrow>qs. snd (spec_impulse p q)) \<and>
     qs' = map (\<lambda>q. q\<lparr>p_vx := p_vx q - fst (spec_impulse p q),
                         p_vy := p_vy q - snd (spec_impulse p q)\<rparr>) qs"
proof (induction qs arbitrary: p p' qs')
  case Nil
  then show ?case by simp
next
  case (Cons q qs)
  obtain u1 q1 where r1: "repulse p q = (u1, q1)" by (cases "repulse p q")
  obtain u2 qs2 where r2: "repel u1 qs = (u2, qs2)" by (cases "repel u1 qs")
  from Cons.prems r1 r2 have eq: "p' = u2" "qs' = q1 # qs2" by simp_all
  from repulse_place [OF r1] have pl: "same_place u1 p" by simp
  have same: "\<And>q. spec_impulse u1 q = spec_impulse p q"
    by (rule spec_impulse_place [OF pl]) (simp add: same_place_def)
  from r1 have u1: "p_vx u1 = p_vx p + fst (spec_impulse p q)"
      "p_vy u1 = p_vy p + snd (spec_impulse p q)"
      "q1 = q\<lparr>p_vx := p_vx q - fst (spec_impulse p q), p_vy := p_vy q - snd (spec_impulse p q)\<rparr>"
    by (auto simp: repulse_impulse)
  from Cons.IH [OF r2] eq u1 show ?case by (simp add: same)
qed

text \<open>
  C6. The inner loop's body applies to the pair \<open>(p, q)\<close> exactly the impulse of the
  specification: \<open>((REP_DIST - d) / REP_DIST) * REP_FORCE\<close> along the normalised
  \<open>p - q\<close> direction to \<open>p\<close> and the opposite to \<open>q\<close> when \<open>0 < d < REP_DIST\<close>, whose
  magnitude is that factor, and nothing when \<open>d = 0\<close> or \<open>d \<ge> REP_DIST\<close>. Over a frame,
  particle \<open>p\<close> receives the sum of these impulses against every particle after it and
  each of those the opposite one, positions being those at the time the pair is
  visited; the frame then goes on with the particles after \<open>p\<close>, so every unordered pair
  is visited once.
\<close>
theorem pairwise_repulsion:
  "repulse p q =
     (p\<lparr>p_vx := p_vx p + fst (spec_impulse p q), p_vy := p_vy p + snd (spec_impulse p q)\<rparr>,
      q\<lparr>p_vx := p_vx q - fst (spec_impulse p q), p_vy := p_vy q - snd (spec_impulse p q)\<rparr>) \<and>
   (0 < hypot (p_x p - p_x q) (p_y p - p_y q) \<and> hypot (p_x p - p_x q) (p_y p - p_y q) < REP_DIST \<longrightarrow>
      hypot (fst (spec_impulse p q)) (snd (spec_impulse p q)) =
        ((REP_DIST - hypot (p_x p - p_x q) (p_y p - p_y q)) / REP_DIST) * REP_FORCE) \<and>
   (hypot (p_x p - p_x q) (p_y p - p_y q) = 0 \<or> REP_DIST \<le> hypot (p_x p - p_x q) (p_y p - p_y q) \<longrightarrow>
      repulse p q = (p, q)) \<and>
   p_vx (fst (repel p qs)) = p_vx p + (\<Sum>q\<leftarrow>qs. fst (spec_impulse p q)) \<and>
   p_vy (fst (repel p qs)) = p_vy p + (\<Sum>q\<leftarrow>qs. snd (spec_impulse p q)) \<and>
   snd (repel p qs) = map (\<lambda>q. q\<lparr>p_vx := p_vx q - fst (spec_impulse p q),
                                   p_vy := p_vy q - snd (spec_impulse p q)\<rparr>) qs \<and>
   animate (p # qs) =
     integrate (normalise (fst (repel (wall p) qs))) # animate (snd (repel (wall p) qs))"
proof -
  let ?d = "hypot (p_x p - p_x q) (p_y p - p_y q)"
  have mag: "hypot (fst (spec_impulse p q)) (snd (spec_impulse p q)) =
        ((REP_DIST - ?d) / REP_DIST) * REP_FORCE" if d: "0 < ?d" "?d < REP_DIST"
  proof -
    have f: "0 \<le> ((REP_DIST - ?d) / REP_DIST) * REP_FORCE"
      using d by (simp add: REP_DIST_def REP_FORCE_def)
    have "hypot ((p_x p - p_x q) / ?d * (((REP_DIST - ?d) / REP_DIST) * REP_FORCE))
                ((p_y p - p_y q) / ?d * (((REP_DIST - ?d) / REP_DIST) * REP_FORCE))
          = hypot ((p_x p - p_x q) / ?d) ((p_y p - p_y q) / ?d) * (((REP_DIST - ?d) / REP_DIST) * REP_FORCE)"
      by (rule hypot_scale [OF f])
    with d show ?thesis by (simp add: spec_impulse_hypot Let_def hypot_unit)
  qed
  have none: "repulse p q = (p, q)" if "?d = 0 \<or> REP_DIST \<le> ?d"
    using that by (auto simp: repulse_def Let_def)
  obtain p' qs' where r: "repel p qs = (p', qs')" by (cases "repel p qs")
  from repel_impulse [OF r] r have rep:
    "p_vx (fst (repel p qs)) = p_vx p + (\<Sum>q\<leftarrow>qs. fst (spec_impulse p q))"
    "p_vy (fst (repel p qs)) = p_vy p + (\<Sum>q\<leftarrow>qs. snd (spec_impulse p q))"
    "snd (repel p qs) = map (\<lambda>q. q\<lparr>p_vx := p_vx q - fst (spec_impulse p q),
                                   p_vy := p_vy q - snd (spec_impulse p q)\<rparr>) qs"
    by simp_all
  have unf: "animate (p # qs) =
     integrate (normalise (fst (repel (wall p) qs))) # animate (snd (repel (wall p) qs))"
    by (simp split: prod.splits)
  from mag none rep unf repulse_impulse [of p q] show ?thesis by blast
qed

lemma animate_lone: "animate [lone] = [lone\<lparr>p_x := - (1 / 4)\<rparr>]"
  by (simp add: lone_def wall_def normalise_def integrate_def hypot_axis Let_def
        BOUND_W_def BOUNCE_H_def SPEED_def)

text \<open>
  C2, as stated, fails: the wall tests come before the integration step, so a particle
  that starts a frame at \<open>x = 0.1\<close> moving left at \<open>SPEED\<close> ends it, and is drawn, at
  \<open>x = -0.25\<close>.
\<close>
theorem wall_clamp_counterexample:
  "p_x (hd (animate [\<lparr>p_id = 0, p_word = ''Risk'', p_x = 1 / 10, p_y = 80,
                      p_vx = - (35 / 100), p_vy = 0\<rparr>])) = - (1 / 4)"
  using animate_lone by (simp add: lone_def)

lemma frame_position:
  "list_all2 (\<lambda>p r. p_x r = p_x (wall p) + p_vx r \<and> p_y r = p_y (wall p) + p_vy r)
     ps (animate ps)"
  by (rule list_all2_mono [OF animate_rel]) (simp add: frame_rel_def)

lemma wall_vx:
  "p_vx (wall p) =
     (if p_x p \<le> 0 then \<bar>p_vx p\<bar> else if p_x p \<ge> BOUND_W then - \<bar>p_vx p\<bar> else p_vx p)"
  by (simp add: wall_def Let_def BOUND_W_def)

lemma wall_vy:
  "p_vy (wall p) =
     (if p_y p \<le> 0 then \<bar>p_vy p\<bar> else if p_y p \<ge> BOUNCE_H then - \<bar>p_vy p\<bar> else p_vy p)"
  unfolding wall_def Let_def BOUNCE_H_def BOUND_W_def
  by (cases "p_x p \<le> 0"; cases "p_x p \<ge> 160"; cases "p_y p \<le> 0"; cases "p_y p \<ge> 160")
    simp_all

lemma wall_reflect:
  "p_x p \<le> 0 \<Longrightarrow> p_x (wall p) = 0 \<and> 0 \<le> p_vx (wall p)"
  "BOUND_W \<le> p_x p \<Longrightarrow> p_x (wall p) = BOUND_W \<and> p_vx (wall p) \<le> 0"
  "p_y p \<le> 0 \<Longrightarrow> p_y (wall p) = 0 \<and> 0 \<le> p_vy (wall p)"
  "BOUNCE_H \<le> p_y p \<Longrightarrow> p_y (wall p) = BOUNCE_H \<and> p_vy (wall p) \<le> 0"
  by (simp_all add: wall_x wall_y wall_vx wall_vy BOUND_W_def BOUNCE_H_def)

text \<open>
  C2, amended. Right after the wall tests of a frame the particle lies in
  \<open>[0, BOUND_W] \<times> [0, BOUNCE_H]\<close>; a position \<open>\<le> 0\<close> is clamped to \<open>0\<close> with that axis's
  velocity made non-negative and a position \<open>\<ge>\<close> the bound is clamped to the bound
  with that velocity made non-positive. The position at the end of the frame is the
  clamped position plus the frame's final velocity.
\<close>
theorem wall_clamp:
  "0 \<le> p_x (wall p) \<and> p_x (wall p) \<le> BOUND_W \<and> 0 \<le> p_y (wall p) \<and> p_y (wall p) \<le> BOUNCE_H \<and>
   (p_x p \<le> 0 \<longrightarrow> p_x (wall p) = 0 \<and> 0 \<le> p_vx (wall p)) \<and>
   (BOUND_W \<le> p_x p \<longrightarrow> p_x (wall p) = BOUND_W \<and> p_vx (wall p) \<le> 0) \<and>
   (p_y p \<le> 0 \<longrightarrow> p_y (wall p) = 0 \<and> 0 \<le> p_vy (wall p)) \<and>
   (BOUNCE_H \<le> p_y p \<longrightarrow> p_y (wall p) = BOUNCE_H \<and> p_vy (wall p) \<le> 0) \<and>
   list_all2 (\<lambda>p r. p_x r = p_x (wall p) + p_vx r \<and> p_y r = p_y (wall p) + p_vy r)
     ps (animate ps)"
  using wall_bounds [of p] wall_reflect [of p] frame_position [of ps] by blast

theorem wall_clamp_witness:
  "(p_x (lone\<lparr>p_x := - 1, p_y := - 1\<rparr>) \<le> 0 \<and> p_y (lone\<lparr>p_x := - 1, p_y := - 1\<rparr>) \<le> 0 \<and>
    p_x (wall (lone\<lparr>p_x := - 1, p_y := - 1\<rparr>)) = 0 \<and> 0 \<le> p_vx (wall (lone\<lparr>p_x := - 1, p_y := - 1\<rparr>)) \<and>
    p_y (wall (lone\<lparr>p_x := - 1, p_y := - 1\<rparr>)) = 0 \<and> 0 \<le> p_vy (wall (lone\<lparr>p_x := - 1, p_y := - 1\<rparr>))) \<and>
   (BOUND_W \<le> p_x (lone\<lparr>p_x := 161, p_y := 161\<rparr>) \<and> BOUNCE_H \<le> p_y (lone\<lparr>p_x := 161, p_y := 161\<rparr>) \<and>
    p_x (wall (lone\<lparr>p_x := 161, p_y := 161\<rparr>)) = BOUND_W \<and> p_vx (wall (lone\<lparr>p_x := 161, p_y := 161\<rparr>)) \<le> 0 \<and>
    p_y (wall (lone\<lparr>p_x := 161, p_y := 161\<rparr>)) = BOUNCE_H \<and> p_vy (wall (lone\<lparr>p_x := 161, p_y := 161\<rparr>)) \<le> 0)"
proof -
  have lo: "p_x (lone\<lparr>p_x := - 1, p_y := - 1\<rparr>) \<le> 0" "p_y (lone\<lparr>p_x := - 1, p_y := - 1\<rparr>) \<le> 0"
    by simp_all
  have hi: "BOUND_W \<le> p_x (lone\<lparr>p_x := 161, p_y := 161\<rparr>)"
      "BOUNCE_H \<le> p_y (lone\<lparr>p_x := 161, p_y := 161\<rparr>)"
    by (simp_all add: BOUND_W_def BOUNCE_H_def)
  from lo hi wall_clamp [of "lone\<lparr>p_x := - 1, p_y := - 1\<rparr>" "[lone]"]
    wall_clamp [of "lone\<lparr>p_x := 161, p_y := 161\<rparr>" "[lone]"]
  show ?thesis by blast
qed

lemma frame_speed:
  "r \<in> set (animate ps) \<Longrightarrow>
     p_vx r = 0 \<and> p_vy r = 0 \<or> hypot (p_vx r) (p_vy r) = SPEED"
proof -
  assume "r \<in> set (animate ps)"
  then obtain i where i: "i < length (animate ps)" "r = animate ps ! i"
    by (auto simp: in_set_conv_nth)
  with animate_rel [of ps] have "frame_rel (ps ! i) r"
    by (simp add: list_all2_conv_all_nth)
  then show ?thesis by (simp add: frame_rel_def)
qed

text \<open>
  C3. At the end of a frame every particle whose velocity is not zero has speed
  \<open>SPEED\<close>, whatever impulses it received in the frame; renormalisation leaves a zero
  velocity as it is (the division is guarded) and gives any other velocity the
  magnitude \<open>SPEED\<close>.
\<close>
theorem renormalised_speed:
  "(\<forall>r \<in> set (animate ps). (p_vx r \<noteq> 0 \<or> p_vy r \<noteq> 0) \<longrightarrow> hypot (p_vx r) (p_vy r) = SPEED) \<and>
   (p_vx p = 0 \<and> p_vy p = 0 \<longrightarrow> normalise p = p) \<and>
   (p_vx p \<noteq> 0 \<or> p_vy p \<noteq> 0 \<longrightarrow> hypot (p_vx (normalise p)) (p_vy (normalise p)) = SPEED)"
proof -
  have a: "\<forall>r \<in> set (animate ps). (p_vx r \<noteq> 0 \<or> p_vy r \<noteq> 0) \<longrightarrow> hypot (p_vx r) (p_vy r) = SPEED"
    using frame_speed [of _ ps] by blast
  have b: "normalise p = p" if "p_vx p = 0 \<and> p_vy p = 0"
    using that by (simp add: normalise_def hypot_def)
  have c: "hypot (p_vx (normalise p)) (p_vy (normalise p)) = SPEED" if nz: "p_vx p \<noteq> 0 \<or> p_vy p \<noteq> 0"
  proof -
    from nz hypot_zero [of "p_vx p" "p_vy p"] hypot_nonneg [of "p_vx p" "p_vy p"]
    have pos: "0 < hypot (p_vx p) (p_vy p)" by linarith
    have "hypot (p_vx p / hypot (p_vx p) (p_vy p) * SPEED) (p_vy p / hypot (p_vx p) (p_vy p) * SPEED)
        = hypot (p_vx p / hypot (p_vx p) (p_vy p)) (p_vy p / hypot (p_vx p) (p_vy p)) * SPEED"
      by (rule hypot_scale) (simp add: SPEED_def)
    with pos show ?thesis by (simp add: normalise_def Let_def hypot_unit)
  qed
  from a b c show ?thesis by blast
qed

theorem renormalised_speed_witness:
  "lone\<lparr>p_x := - (1 / 4)\<rparr> \<in> set (animate [lone]) \<and> p_vx (lone\<lparr>p_x := - (1 / 4)\<rparr>) \<noteq> 0 \<and>
   hypot (p_vx (lone\<lparr>p_x := - (1 / 4)\<rparr>)) (p_vy (lone\<lparr>p_x := - (1 / 4)\<rparr>)) = SPEED \<and>
   p_vx (lone\<lparr>p_vx := 0\<rparr>) = 0 \<and> p_vy (lone\<lparr>p_vx := 0\<rparr>) = 0 \<and>
   normalise (lone\<lparr>p_vx := 0\<rparr>) = lone\<lparr>p_vx := 0\<rparr> \<and>
   p_vx lone \<noteq> 0 \<and> hypot (p_vx (normalise lone)) (p_vy (normalise lone)) = SPEED"
proof -
  have m: "lone\<lparr>p_x := - (1 / 4)\<rparr> \<in> set (animate [lone])"
    unfolding animate_lone by simp
  have n: "p_vx (lone\<lparr>p_x := - (1 / 4)\<rparr>) \<noteq> 0" "p_vx lone \<noteq> 0"
    "p_vx (lone\<lparr>p_vx := 0\<rparr>) = 0" "p_vy (lone\<lparr>p_vx := 0\<rparr>) = 0"
    by (simp_all add: lone_def)
  from m n renormalised_speed [of "[lone]" "lone\<lparr>p_vx := 0\<rparr>"]
    renormalised_speed [of "[lone]" lone]
  show ?thesis by blast
qed

theorem pairwise_repulsion_witness:
  "(0 < hypot (p_x (lone\<lparr>p_x := 30\<rparr>) - p_x (lone\<lparr>p_x := 0\<rparr>)) (p_y (lone\<lparr>p_x := 30\<rparr>) - p_y (lone\<lparr>p_x := 0\<rparr>)) \<and>
    hypot (p_x (lone\<lparr>p_x := 30\<rparr>) - p_x (lone\<lparr>p_x := 0\<rparr>)) (p_y (lone\<lparr>p_x := 30\<rparr>) - p_y (lone\<lparr>p_x := 0\<rparr>)) < REP_DIST \<and>
    hypot (fst (spec_impulse (lone\<lparr>p_x := 30\<rparr>) (lone\<lparr>p_x := 0\<rparr>)))
          (snd (spec_impulse (lone\<lparr>p_x := 30\<rparr>) (lone\<lparr>p_x := 0\<rparr>))) = 1 / 8) \<and>
   (hypot (p_x lone - p_x lone) (p_y lone - p_y lone) = 0 \<and> repulse lone lone = (lone, lone))"
proof -
  let ?p = "lone\<lparr>p_x := 30\<rparr>" and ?q = "lone\<lparr>p_x := 0\<rparr>"
  have d: "hypot (p_x ?p - p_x ?q) (p_y ?p - p_y ?q) = 30"
    by (simp add: hypot_axis)
  have z: "hypot (p_x lone - p_x lone) (p_y lone - p_y lone) = 0"
    by (simp add: hypot_axis)
  from d have h: "0 < hypot (p_x ?p - p_x ?q) (p_y ?p - p_y ?q) \<and>
      hypot (p_x ?p - p_x ?q) (p_y ?p - p_y ?q) < REP_DIST"
    by (simp add: REP_DIST_def)
  from h pairwise_repulsion [of ?p ?q "[]"]
  have "hypot (fst (spec_impulse ?p ?q)) (snd (spec_impulse ?p ?q)) =
      ((REP_DIST - hypot (p_x ?p - p_x ?q) (p_y ?p - p_y ?q)) / REP_DIST) * REP_FORCE"
    by blast
  with d have m: "hypot (fst (spec_impulse ?p ?q)) (snd (spec_impulse ?p ?q)) = 1 / 8"
    by (simp add: REP_DIST_def REP_FORCE_def)
  from z pairwise_repulsion [of lone lone "[]"] have "repulse lone lone = (lone, lone)"
    by blast
  with h m z show ?thesis by blast
qed

lemma createFrom_initial:
  "\<forall>k. 0 \<le> rnd k \<and> rnd k < 1 \<Longrightarrow> p \<in> set (createFrom rnd i words) \<Longrightarrow>
     16 \<le> p_x p \<and> p_x p \<le> BOUND_W - 16 \<and> 16 \<le> p_y p \<and> p_y p \<le> BOUNCE_H - 16 \<and>
     hypot (p_vx p) (p_vy p) = SPEED"
proof (induction words arbitrary: i)
  case Nil
  then show ?case by simp
next
  case (Cons w ws)
  let ?a = "rand (rnd (3 * i)) 0 (pi * 2)"
  have r: "0 \<le> rnd (3 * i + 1)" "rnd (3 * i + 1) < 1" "0 \<le> rnd (3 * i + 2)" "rnd (3 * i + 2) < 1"
    using Cons.prems(1) by simp_all
  have x: "16 \<le> rand (rnd (3 * i + 1)) 16 (BOUND_W - 16)"
      "rand (rnd (3 * i + 1)) 16 (BOUND_W - 16) \<le> BOUND_W - 16"
    using r(1,2) by (simp_all add: rand_def BOUND_W_def)
  have y: "16 \<le> rand (rnd (3 * i + 2)) 16 (BOUNCE_H - 16)"
      "rand (rnd (3 * i + 2)) 16 (BOUNCE_H - 16) \<le> BOUNCE_H - 16"
    using r(3,4) by (simp_all add: rand_def BOUNCE_H_def)
  have "hypot (cos ?a * SPEED) (sin ?a * SPEED) = hypot (cos ?a) (sin ?a) * SPEED"
    by (rule hypot_scale) (simp add: SPEED_def)
  then have v: "hypot (cos ?a * SPEED) (sin ?a * SPEED) = SPEED"
    by (simp add: hypot_power2)
  from Cons.prems(2) have "p \<in> set (createFrom rnd (Suc i) ws) \<or>
      p = \<lparr>p_id = i, p_word = w, p_x = rand (rnd (3 * i + 1)) 16 (BOUND_W - 16),
           p_y = rand (rnd (3 * i + 2)) 16 (BOUNCE_H - 16),
           p_vx = cos ?a * SPEED, p_vy = sin ?a * SPEED\<rparr>"
    by (auto simp: Let_def)
  then show ?case
  proof
    assume "p \<in> set (createFrom rnd (Suc i) ws)"
    with Cons.IH [OF Cons.prems(1)] show ?thesis by blast
  next
    assume "p = \<lparr>p_id = i, p_word = w, p_x = rand (rnd (3 * i + 1)) 16 (BOUND_W - 16),
           p_y = rand (rnd (3 * i + 2)) 16 (BOUNCE_H - 16),
           p_vx = cos ?a * SPEED, p_vy = sin ?a * SPEED\<rparr>"
    with x y v show ?thesis by simp
  qed
qed

lemma animate_overshoot:
  assumes "r \<in> set (animate ps)"
  shows "- SPEED \<le> p_x r \<and> p_x r \<le> BOUND_W + SPEED \<and>
         - SPEED \<le> p_y r \<and> p_y r \<le> BOUNCE_H + SPEED"
proof -
  from assms obtain i where i: "i < length (animate ps)" "r = animate ps ! i"
    by (auto simp: in_set_conv_nth)
  with animate_rel [of ps] have fr: "frame_rel (ps ! i) r"
    by (simp add: list_all2_conv_all_nth)
  have v: "\<bar>p_vx r\<bar> \<le> SPEED \<and> \<bar>p_vy r\<bar> \<le> SPEED"
  proof (cases "p_vx r = 0 \<and> p_vy r = 0")
    case True
    then show ?thesis by (simp add: SPEED_def)
  next
    case False
    with fr have "hypot (p_vx r) (p_vy r) = SPEED" by (auto simp: frame_rel_def)
    with hypot_component [of "p_vx r" "p_vy r"] show ?thesis by simp
  qed
  from fr have pos: "p_x r = p_x (wall (ps ! i)) + p_vx r" "p_y r = p_y (wall (ps ! i)) + p_vy r"
    by (simp_all add: frame_rel_def)
  from v pos wall_bounds [of "ps ! i"] show ?thesis by linarith
qed

lemma frames_overshoot:
  "0 < n \<Longrightarrow> r \<in> set (frames n ps) \<Longrightarrow>
     - SPEED \<le> p_x r \<and> p_x r \<le> BOUND_W + SPEED \<and>
     - SPEED \<le> p_y r \<and> p_y r \<le> BOUNCE_H + SPEED"
proof (induction n arbitrary: ps)
  case 0
  then show ?case by simp
next
  case (Suc n)
  show ?case
  proof (cases "n = 0")
    case True
    with Suc.prems(2) have "r \<in> set (animate ps)" by simp
    then show ?thesis by (rule animate_overshoot)
  next
    case False
    with Suc.prems(2) Suc.IH [of "animate ps"] show ?thesis by simp
  qed
qed

text \<open>
  C10. With every draw of \<open>Math.random\<close> in \<open>[0, 1)\<close>, the particles of
  \<open>createParticles\<close> start in \<open>[16, BOUND_W - 16] \<times> [16, BOUNCE_H - 16]\<close> with speed
  \<open>SPEED\<close>, and after any number of frames every position lies within
  \<open>[- SPEED, bound + SPEED]\<close> on each axis.
\<close>
theorem overshoot_bound:
  assumes "\<forall>k. 0 \<le> rnd k \<and> rnd k < 1"
  shows "(\<forall>p \<in> set (createParticles rnd words).
            16 \<le> p_x p \<and> p_x p \<le> BOUND_W - 16 \<and> 16 \<le> p_y p \<and> p_y p \<le> BOUNCE_H - 16 \<and>
            hypot (p_vx p) (p_vy p) = SPEED) \<and>
         (\<forall>p \<in> set (frames n (createParticles rnd words)).
            - SPEED \<le> p_x p \<and> p_x p \<le> BOUND_W + SPEED \<and>
            - SPEED \<le> p_y p \<and> p_y p \<le> BOUNCE_H + SPEED)"
proof -
  have init: "16 \<le> p_x p \<and> p_x p \<le> BOUND_W - 16 \<and> 16 \<le> p_y p \<and> p_y p \<le> BOUNCE_H - 16 \<and>
            hypot (p_vx p) (p_vy p) = SPEED" if "p \<in> set (createParticles rnd words)" for p
    using that createFrom_initial [OF assms] by (simp add: createParticles_def)
  have later: "- SPEED \<le> p_x p \<and> p_x p \<le> BOUND_W + SPEED \<and>
            - SPEED \<le> p_y p \<and> p_y p \<le> BOUNCE_H + SPEED"
    if p: "p \<in> set (frames n (createParticles rnd words))" for p
  proof (cases "n = 0")
    case True
    with p init [of p] show ?thesis by (simp add: SPEED_def)
  next
    case False
    with p frames_overshoot [of n p] show ?thesis by simp
  qed
  from init later show ?thesis by blast
qed

theorem overshoot_bound_witness:
  "(\<forall>k::nat. (0::real) \<le> 0 \<and> (0::real) < 1) \<and>
   - SPEED \<le> p_x (hd (frames 1 (createParticles (\<lambda>k. 0) [''Risk'']))) \<and>
   p_x (hd (frames 1 (createParticles (\<lambda>k. 0) [''Risk'']))) \<le> BOUND_W + SPEED \<and>
   - SPEED \<le> p_y (hd (frames 1 (createParticles (\<lambda>k. 0) [''Risk'']))) \<and>
   p_y (hd (frames 1 (createParticles (\<lambda>k. 0) [''Risk'']))) \<le> BOUNCE_H + SPEED"
proof -
  have h: "\<forall>k::nat. (0::real) \<le> (\<lambda>k. 0) k \<and> (\<lambda>k. 0) k < (1::real)" by simp
  have "frames 1 (createParticles (\<lambda>k. 0) [''Risk'']) =
      [\<lparr>p_id = 0, p_word = ''Risk'', p_x = 16 + SPEED, p_y = 16, p_vx = SPEED, p_vy = 0\<rparr>]"
    by (simp add: createParticles_def rand_def wall_def normalise_def integrate_def hypot_axis
          Let_def BOUND_W_def BOUNCE_H_def SPEED_def)
  then have m: "hd (frames 1 (createParticles (\<lambda>k. 0) [''Risk'']))
      \<in> set (frames 1 (createParticles (\<lambda>k. 0) [''Risk'']))"
    by simp
  from h m overshoot_bound [OF h, of "[''Risk'']" 1] show ?thesis by blast
qed

section \<open>The state machine: invariant\<close>

lemma createFrom_ids: "map p_id (createFrom rnd i ws) = [i..<i + length ws]"
  by (induction ws arbitrary: i) (simp_all add: Let_def upt_rec)

lemma createParticles_ids: "ids_ok (createParticles rnd ws)"
proof -
  have "length (createFrom rnd 0 ws) = length ws"
    using createFrom_ids [of rnd 0 ws] by (metis length_map length_upt add_diff_cancel_left')
  then show ?thesis using createFrom_ids [of rnd 0 ws] by (simp add: ids_ok_def createParticles_def)
qed

lemma ids_ok_Nil: "ids_ok []"
  by (simp add: ids_ok_def)

lemma box_stay:
  assumes "box_ok rk ph b" and "ph = Idle \<or> ph = Active"
  shows "renderBox rnd words ph rk b = b"
proof (cases b)
  case None
  with assms show ?thesis by (auto simp: box_ok_def)
next
  case (Some w)
  with assms have f: "depPhase w = ph" "depResetKey w = rk" "\<not> gatherTimer w" "\<not> closingTimer w"
    by (auto simp: box_ok_def)
  from assms(2) have ph: "ph \<noteq> Gathering" "ph \<noteq> Closing" "ph \<noteq> Closed" by auto
  have "renderWordParticles rnd words ph rk w =
      w\<lparr>gatherTimer := False, closingTimer := False, depPhase := ph, depResetKey := rk\<rparr>"
    by (simp add: renderWordParticles_def gatheringEffect_def gatheringCleanup_def
        closingEffect_def closingCleanup_def Let_def f(1,2) ph)
  also have "\<dots> = w"
    using f by (intro WordParticles.equality) simp_all
  finally show ?thesis using Some ph by (simp add: renderBox_def)
qed

lemma box_closed: "renderBox rnd words Closed rk b = None"
  by (simp add: renderBox_def)

lemma box_activate:
  "box_ok rk Idle b \<Longrightarrow> box_ok rk Active (renderBox rnd words Active rk b)"
  by (auto simp: box_ok_def renderBox_def renderWordParticles_def gatheringEffect_def
      gatheringCleanup_def closingEffect_def closingCleanup_def physicsEffect_def physicsCleanup_def
      Let_def createParticles_ids split: option.splits)

lemma box_gather:
  "box_ok rk Active b \<Longrightarrow> box_ok rk Gathering (renderBox rnd words Gathering rk b)"
  by (auto simp: box_ok_def renderBox_def renderWordParticles_def gatheringEffect_def
      gatheringCleanup_def closingEffect_def closingCleanup_def physicsEffect_def physicsCleanup_def
      Let_def positions_def split: option.splits)

lemma box_close:
  "box_ok rk Gathering (Some w) \<Longrightarrow>
     box_ok rk Closing (renderBox rnd words Closing rk (Some (w\<lparr>gatherTimer := False\<rparr>)))"
  by (auto simp: box_ok_def renderBox_def renderWordParticles_def gatheringEffect_def
      gatheringCleanup_def closingEffect_def closingCleanup_def physicsEffect_def physicsCleanup_def
      Let_def positions_def split: option.splits)

lemma box_mount:
  "ph = Idle \<or> ph = Active \<Longrightarrow> box_ok rk ph (renderBox rnd words ph rk None)"
  by (auto simp: box_ok_def renderBox_def mountWordParticles_def gatheringEffect_def
      closingEffect_def physicsEffect_def resetEffect_def createParticles_ids)

lemma show_props [simp]:
  "showScene h (BOX_DATA ! 2) = allClosed h"
  "showDefineScene h (BOX_DATA ! 0) = defineSceneActive h"
  by (simp_all add: showScene_def showDefineScene_def BOX_DATA_def)

lemma render_fields [simp]:
  "phases (render rnd h) = phases h" "resetKey (render rnd h) = resetKey h"
  "defineSceneActive (render rnd h) = defineSceneActive h" "isShaking (render rnd h) = isShaking h"
  "shakeTimers (render rnd h) = shakeTimers h"
  "stickScene (render rnd h) = boxStick (allClosed h) (stickScene h)"
  "defineScene (render rnd h) = boxDefine (defineSceneActive h) (defineScene h)"
  by (simp_all add: render_def)

lemma render_boxes:
  "phases h = [p0, p1, p2] \<Longrightarrow> boxes h = [b0, b1, b2] \<Longrightarrow>
   boxes (render rnd h) =
     [renderBox (rnd 0) (snd (snd (snd (BOX_DATA ! 0)))) p0 (resetKey h) b0,
      renderBox (rnd 1) (snd (snd (snd (BOX_DATA ! 1)))) p1 (resetKey h) b1,
      renderBox (rnd 2) (snd (snd (snd (BOX_DATA ! 2)))) p2 (resetKey h) b2]"
  by (simp add: render_def BOX_DATA_def numeral_2_eq_2)

lemma hero_inv_boxes:
  assumes "hero_inv h"
  obtains p0 p1 p2 b0 b1 b2 where "phases h = [p0, p1, p2]" "boxes h = [b0, b1, b2]"
    "box_ok (resetKey h) p0 b0" "box_ok (resetKey h) p1 b1" "box_ok (resetKey h) p2 b2"
proof -
  from assms obtain p0 p1 p2 where p: "phases h = [p0, p1, p2]"
    by (auto simp: hero_inv_def in_loop_def in_vignette_def)
  with assms obtain b0 b1 b2 where "boxes h = [b0, b1, b2]"
    "box_ok (resetKey h) p0 b0" "box_ok (resetKey h) p1 b1" "box_ok (resetKey h) p2 b2"
    by (auto simp: hero_inv_def list_all2_Cons1)
  with p that show ?thesis by blast
qed

lemma box_ok_Closed [simp]: "box_ok rk Closed b \<longleftrightarrow> b = None"
  by (simp add: box_ok_def split: option.splits)

lemma box_ok_None [simp]: "box_ok rk ph None \<longleftrightarrow> ph = Closed"
  by (simp add: box_ok_def)

lemma index3: "i < length [a, b, c] \<Longrightarrow> i = 0 \<or> i = 1 \<or> i = 2"
  by auto

lemma box_trans_refl [simp]: "box_trans a b a b"
  by (simp add: box_trans_def)

lemma step_ok_refl: "hero_inv h \<Longrightarrow> step_ok h h"
  by (simp add: step_ok_def list_all2_same split: prod.splits)

lemma trans_frame: "box_trans a (Some w) a (Some (animationFrame w))"
  by (simp add: box_trans_def)

lemma trans_activate:
  "box_ok rk Idle b \<Longrightarrow> box_trans Idle b Active (renderBox rnd words Active rk b)"
  by (auto simp: box_trans_def box_ok_def renderBox_def renderWordParticles_def gatheringEffect_def
      gatheringCleanup_def closingEffect_def closingCleanup_def physicsEffect_def physicsCleanup_def
      Let_def split: option.splits)

lemma trans_gather:
  "box_ok rk Active b \<Longrightarrow> box_trans Active b Gathering (renderBox rnd words Gathering rk b)"
  by (auto simp: box_trans_def box_ok_def renderBox_def renderWordParticles_def gatheringEffect_def
      gatheringCleanup_def closingEffect_def closingCleanup_def physicsEffect_def physicsCleanup_def
      Let_def positions_def split: option.splits)

lemma trans_close:
  "box_ok rk Gathering (Some w) \<Longrightarrow>
     box_trans Gathering (Some w) Closing
       (renderBox rnd words Closing rk (Some (w\<lparr>gatherTimer := False\<rparr>)))"
  by (auto simp: box_trans_def box_ok_def renderBox_def renderWordParticles_def gatheringEffect_def
      gatheringCleanup_def closingEffect_def closingCleanup_def physicsEffect_def physicsCleanup_def
      Let_def positions_def split: option.splits)

lemma trans_shut: "box_trans Closing (Some w) Closed None"
  by (simp add: box_trans_def)

lemma trans_mount:
  "a' = Idle \<or> a' = Active \<Longrightarrow> box_trans Closed None a' (renderBox rnd words a' rk None)"
  by (auto simp: box_trans_def renderBox_def mountWordParticles_def gatheringEffect_def
      closingEffect_def physicsEffect_def resetEffect_def)

lemmas trans_lemmas = trans_frame trans_activate trans_gather trans_close trans_shut trans_mount

lemma step_click_ok:
  assumes inv: "hero_inv h"
  shows "step_ok h (step rnd (Click i) h)"
proof (cases "i < length (phases h) \<and> phases h ! i = Active")
  case False
  with step_ok_refl [OF inv] show ?thesis by auto
next
  case True
  from inv obtain p0 p1 p2 b0 b1 b2 where s: "phases h = [p0, p1, p2]" "boxes h = [b0, b1, b2]"
    and ok: "box_ok (resetKey h) p0 b0" "box_ok (resetKey h) p1 b1" "box_ok (resetKey h) p2 b2"
    by (rule hero_inv_boxes)
  from True s have i: "i = 0 \<or> i = 1 \<or> i = 2" using index3 by metis
  from inv True s have loop: "in_loop h"
    using i by (auto simp: hero_inv_def in_vignette_def)
  from loop s True i consider
      "i = 0" "p0 = Active" "p1 = Idle" "p2 = Idle"
    | "i = 1" "p0 = Closed" "p1 = Active" "p2 = Idle"
    | "i = 2" "p0 = Closed" "p1 = Closed" "p2 = Active"
    by (auto simp: in_loop_def)
  then show ?thesis
  proof cases
    case 1
    with s ok loop True show ?thesis
      by (simp add: step_ok_def trans_lemmas hero_inv_def in_loop_def handleClick_def render_boxes allClosed_def
          boxStick_def boxDefine_def box_stay box_gather)
  next
    case 2
    with s ok loop True show ?thesis
      by (simp add: step_ok_def trans_lemmas hero_inv_def in_loop_def handleClick_def render_boxes allClosed_def
          boxStick_def boxDefine_def box_stay box_gather box_closed)
  next
    case 3
    with s ok loop True show ?thesis
      by (simp add: step_ok_def trans_lemmas hero_inv_def in_loop_def handleClick_def render_boxes allClosed_def
          boxStick_def boxDefine_def box_stay box_gather box_closed)
  qed
qed

lemma box_ok_timers:
  "box_ok rk ph (Some w) \<Longrightarrow>
     (gatherTimer w \<longleftrightarrow> ph = Gathering) \<and> (closingTimer w \<longleftrightarrow> ph = Closing) \<and>
     (rafRef w \<longleftrightarrow> ph = Idle \<or> ph = Active)"
  by (cases ph) (simp_all add: box_ok_def)

lemma animate_ids: "map p_id (animate ps) = map p_id ps"
proof (rule nth_equalityI)
  show "length (map p_id (animate ps)) = length (map p_id ps)"
    using list_all2_lengthD [OF animate_rel [of ps]] by simp
next
  fix i assume "i < length (map p_id (animate ps))"
  then have i: "i < length ps" "i < length (animate ps)"
    using list_all2_lengthD [OF animate_rel [of ps]] by simp_all
  with animate_rel [of ps] have "frame_rel (ps ! i) (animate ps ! i)"
    by (simp add: list_all2_conv_all_nth)
  with i show "map p_id (animate ps) ! i = map p_id ps ! i"
    by (simp add: frame_rel_def)
qed

lemma animate_ids_ok: "ids_ok ps \<Longrightarrow> ids_ok (animate ps)"
  using animate_ids [of ps] list_all2_lengthD [OF animate_rel [of ps]]
  by (simp add: ids_ok_def)

lemma box_frame: "box_ok rk ph (Some w) \<Longrightarrow> box_ok rk ph (Some (animationFrame w))"
  by (cases ph) (simp_all add: box_ok_def animationFrame_def animate_ids_ok)

lemma in_loop_boxes [simp]: "in_loop (h\<lparr>boxes := bs\<rparr>) = in_loop h"
  by (simp add: in_loop_def)

lemma in_vignette_boxes [simp]: "in_vignette (h\<lparr>boxes := bs\<rparr>) = in_vignette h"
  by (simp add: in_vignette_def)

lemma step_frame_ok:
  assumes inv: "hero_inv h"
  shows "step_ok h (step rnd (Frame i) h)"
proof (cases "i < length (boxes h)")
  case False
  with step_ok_refl [OF inv] show ?thesis by simp
next
  case True
  from inv obtain p0 p1 p2 b0 b1 b2 where s: "phases h = [p0, p1, p2]" "boxes h = [b0, b1, b2]"
    and ok: "box_ok (resetKey h) p0 b0" "box_ok (resetKey h) p1 b1" "box_ok (resetKey h) p2 b2"
    by (rule hero_inv_boxes)
  from inv have st: "in_loop h \<or> in_vignette h" by (simp add: hero_inv_def)
  from True s have "i = 0 \<or> i = 1 \<or> i = 2" using index3 by metis
  with s ok st show ?thesis
    by (auto simp: step_ok_def trans_lemmas hero_inv_def box_frame split: option.splits)
qed

lemma step_gather_ok:
  assumes inv: "hero_inv h"
  shows "step_ok h (step rnd (GatherTimeout i) h)"
proof (cases "i < length (boxes h) \<and> (\<exists>w. boxes h ! i = Some w \<and> gatherTimer w)")
  case False
  with step_ok_refl [OF inv] show ?thesis by (auto split: option.splits)
next
  case True
  then obtain w where w: "i < length (boxes h)" "boxes h ! i = Some w" "gatherTimer w" by blast
  from inv obtain p0 p1 p2 b0 b1 b2 where s: "phases h = [p0, p1, p2]" "boxes h = [b0, b1, b2]"
    and ok: "box_ok (resetKey h) p0 b0" "box_ok (resetKey h) p1 b1" "box_ok (resetKey h) p2 b2"
    by (rule hero_inv_boxes)
  from w s have i: "i = 0 \<or> i = 1 \<or> i = 2" using index3 by metis
  from i w s ok have g: "phases h ! i = Gathering"
    using box_ok_timers by auto
  from inv g s i have loop: "in_loop h"
    by (auto simp: hero_inv_def in_vignette_def)
  from loop s g i consider
      "i = 0" "p0 = Gathering" "p1 = Idle" "p2 = Idle"
    | "i = 1" "p0 = Closed" "p1 = Gathering" "p2 = Idle"
    | "i = 2" "p0 = Closed" "p1 = Closed" "p2 = Gathering"
    by (auto simp: in_loop_def)
  then show ?thesis
  proof cases
    case 1
    with s ok loop w box_close [of "resetKey h" w] show ?thesis
      by (simp add: step_ok_def trans_lemmas hero_inv_def in_loop_def handleGatherDone_def render_boxes allClosed_def
          boxStick_def boxDefine_def box_stay box_closed)
  next
    case 2
    with s ok loop w box_close [of "resetKey h" w] show ?thesis
      by (simp add: step_ok_def trans_lemmas hero_inv_def in_loop_def handleGatherDone_def render_boxes allClosed_def
          boxStick_def boxDefine_def box_stay box_closed)
  next
    case 3
    with s ok loop w box_close [of "resetKey h" w] show ?thesis
      by (simp add: step_ok_def trans_lemmas hero_inv_def in_loop_def handleGatherDone_def render_boxes allClosed_def
          boxStick_def boxDefine_def box_stay box_closed)
  qed
qed

lemma step_closing_ok:
  assumes inv: "hero_inv h"
  shows "step_ok h (step rnd (ClosingTimeout i) h)"
proof (cases "i < length (boxes h) \<and> (\<exists>w. boxes h ! i = Some w \<and> closingTimer w)")
  case False
  with step_ok_refl [OF inv] show ?thesis by (auto split: option.splits)
next
  case True
  then obtain w where w: "i < length (boxes h)" "boxes h ! i = Some w" "closingTimer w" by blast
  from inv obtain p0 p1 p2 b0 b1 b2 where s: "phases h = [p0, p1, p2]" "boxes h = [b0, b1, b2]"
    and ok: "box_ok (resetKey h) p0 b0" "box_ok (resetKey h) p1 b1" "box_ok (resetKey h) p2 b2"
    by (rule hero_inv_boxes)
  from w s have i: "i = 0 \<or> i = 1 \<or> i = 2" using index3 by metis
  from i w s ok have g: "phases h ! i = Closing"
    using box_ok_timers by auto
  from inv g s i have loop: "in_loop h"
    by (auto simp: hero_inv_def in_vignette_def)
  from loop s g i consider
      "i = 0" "p0 = Closing" "p1 = Idle" "p2 = Idle"
    | "i = 1" "p0 = Closed" "p1 = Closing" "p2 = Idle"
    | "i = 2" "p0 = Closed" "p1 = Closed" "p2 = Closing"
    by (auto simp: in_loop_def)
  then show ?thesis
  proof cases
    case 1
    with s ok loop w show ?thesis
      by (simp add: step_ok_def trans_lemmas hero_inv_def in_loop_def handleClosingDone_def render_boxes allClosed_def
          boxStick_def boxDefine_def box_stay box_closed box_activate)
  next
    case 2
    with s ok loop w show ?thesis
      by (simp add: step_ok_def trans_lemmas hero_inv_def in_loop_def handleClosingDone_def render_boxes allClosed_def
          boxStick_def boxDefine_def box_stay box_closed box_activate)
  next
    case 3
    with s ok loop w show ?thesis
      by (simp add: step_ok_def trans_lemmas hero_inv_def in_loop_def in_vignette_def handleClosingDone_def render_boxes
          allClosed_def boxStick_def boxDefine_def box_closed mountStick_def stickEffect_def)
  qed
qed

lemma vignette_boxes:
  assumes "hero_inv h" "in_vignette h"
  shows "boxes h = [None, None, None]"
  using assms by (auto simp: hero_inv_def in_vignette_def list_all2_Cons1)

lemma step_stick_ok:
  assumes inv: "hero_inv h"
  shows "step_ok h (step rnd StickTimeout h)"
proof (cases "\<exists>s. stickScene h = Some s \<and> sf_timer s")
  case False
  with step_ok_refl [OF inv] show ?thesis by (auto split: option.splits)
next
  case True
  then obtain s where s: "stickScene h = Some s" "sf_timer s" by blast
  with inv have v: "in_vignette h" by (auto simp: hero_inv_def in_loop_def)
  from vignette_boxes [OF inv v] have b: "boxes h = [None, None, None]" .
  from v s have p: "phases h = [Closed, Closed, Closed]" "\<not> defineSceneActive h"
    "defineScene h = None" "\<not> isShaking h" "shakeTimers h = 0" "sf_active s" "sf_sceneKey s = 1"
    by (auto simp: in_vignette_def)
  from s p b show ?thesis
    by (simp add: step_ok_def trans_lemmas hero_inv_def in_vignette_def handleDeployDone_def render_boxes allClosed_def
        boxStick_def boxDefine_def box_closed stickTimeout_def renderStick_def mountDefine_def
        defineEffect_def)
qed

lemma step_definedone_ok:
  assumes inv: "hero_inv h"
  shows "step_ok h (step rnd DefineDoneTimeout h)"
proof (cases "\<exists>d. defineScene h = Some d \<and> ds_tDone d")
  case False
  with step_ok_refl [OF inv] show ?thesis by (auto split: option.splits)
next
  case True
  then obtain d where d: "defineScene h = Some d" "ds_tDone d" by blast
  with inv have v: "in_vignette h" by (auto simp: hero_inv_def in_loop_def)
  from vignette_boxes [OF inv v] have b: "boxes h = [None, None, None]" .
  from v d obtain s where p: "phases h = [Closed, Closed, Closed]" "defineSceneActive h"
    "\<not> isShaking h" "shakeTimers h = 0" "ds_active d" "ds_sceneKey d = 1"
    "ds_tUnmount d = (\<not> ds_done d)"
    "stickScene h = Some s" "sf_active s" "sf_sceneKey s = 1" "\<not> sf_timer s" "sf_done s"
    by (auto simp: in_vignette_def)
  from d p b show ?thesis
    by (simp add: step_ok_def trans_lemmas hero_inv_def in_vignette_def handleDefineDone_def render_boxes allClosed_def
        boxStick_def boxDefine_def box_closed renderStick_def renderDefine_def)
qed

lemma step_defineunmount_ok:
  assumes inv: "hero_inv h"
  shows "step_ok h (step rnd DefineUnmountTimeout h)"
proof (cases "\<exists>d. defineScene h = Some d \<and> ds_tUnmount d")
  case False
  with step_ok_refl [OF inv] show ?thesis by (auto split: option.splits)
next
  case True
  then obtain d where d: "defineScene h = Some d" "ds_tUnmount d" by blast
  with inv have v: "in_vignette h" by (auto simp: hero_inv_def in_loop_def)
  from vignette_boxes [OF inv v] have b: "boxes h = [None, None, None]" .
  from v have p: "phases h = [Closed, Closed, Closed]" by (simp add: in_vignette_def)
  from inv v d b p show ?thesis
    by (auto simp: step_ok_def trans_lemmas hero_inv_def in_vignette_def)
qed

lemma step_shake_ok:
  assumes inv: "hero_inv h"
  shows "step_ok h (step rnd ShakeTimeout h)"
proof (cases "0 < shakeTimers h")
  case False
  with step_ok_refl [OF inv] show ?thesis by simp
next
  case True
  with inv have v: "in_vignette h" by (auto simp: hero_inv_def in_loop_def)
  from vignette_boxes [OF inv v] have b: "boxes h = [None, None, None]" .
  from v True have "shakeTimers h = 1" "phases h = [Closed, Closed, Closed]"
    by (auto simp: in_vignette_def)
  with b show ?thesis
    by (simp add: step_ok_def trans_lemmas hero_inv_def in_loop_def shakeTimeout_def render_boxes allClosed_def
        boxStick_def boxDefine_def box_mount)
qed

lemma init_inv: "hero_inv (init rnd)"
  by (simp add: init_def hero_inv_def in_loop_def render_boxes allClosed_def
      boxStick_def boxDefine_def box_mount)

lemma step_step_ok: "hero_inv h \<Longrightarrow> step_ok h (step rnd e h)"
  by (cases e) (simp_all only: step_click_ok step_frame_ok step_gather_ok step_closing_ok
      step_stick_ok step_definedone_ok step_defineunmount_ok step_shake_ok)

lemma step_inv: "hero_inv h \<Longrightarrow> hero_inv (step rnd e h)"
  using step_step_ok [of h rnd e] by (simp add: step_ok_def)

lemma reachable_inv: "reachable h \<Longrightarrow> hero_inv h"
  by (induction rule: reachable.induct) (simp_all add: init_inv step_inv)

section \<open>The state machine: steps\<close>

lemma reachable_run: "reachable h \<Longrightarrow> reachable (run rnd es h)"
  by (induction es arbitrary: h) (simp_all add: reach_step)

lemma inv_nth:
  assumes "hero_inv h" and "i < 3"
  shows "length (phases h) = 3 \<and> length (boxes h) = 3 \<and>
         box_ok (resetKey h) (phases h ! i) (boxes h ! i)"
proof -
  from assms(1) obtain p0 p1 p2 b0 b1 b2 where s: "phases h = [p0, p1, p2]" "boxes h = [b0, b1, b2]"
    and ok: "box_ok (resetKey h) p0 b0" "box_ok (resetKey h) p1 b1" "box_ok (resetKey h) p2 b2"
    by (rule hero_inv_boxes)
  from assms(2) have "i = 0 \<or> i = 1 \<or> i = 2" by auto
  with s ok show ?thesis by auto
qed

lemma trans_nth:
  assumes "hero_inv h" and "i < 3"
  shows "box_trans (phases h ! i) (boxes h ! i)
           (phases (step rnd e h) ! i) (boxes (step rnd e h) ! i)"
proof -
  let ?h' = "step rnd e h"
  from step_step_ok [OF assms(1), of rnd e] have ok: "hero_inv ?h'"
    and tr: "list_all2 (\<lambda>(a, b) (a', b'). box_trans a b a' b')
       (zip (phases h) (boxes h)) (zip (phases ?h') (boxes ?h'))"
    by (simp_all add: step_ok_def)
  from inv_nth [OF assms] inv_nth [OF ok assms(2)]
  have len: "length (phases h) = 3" "length (boxes h) = 3"
    "length (phases ?h') = 3" "length (boxes ?h') = 3" by simp_all
  with assms(2) have "i < length (zip (phases h) (boxes h))" by simp
  from list_all2_nthD [OF tr this] len assms(2) show ?thesis by simp
qed

lemma step_resetKey:
  "resetKey (step rnd e h) =
     (if e = ShakeTimeout \<and> 0 < shakeTimers h then resetKey h + 1 else resetKey h)"
  by (cases e)
    (auto simp: handleClick_def handleGatherDone_def handleClosingDone_def handleDeployDone_def
      handleDefineDone_def shakeTimeout_def Let_def split: option.splits)

lemma nth_upd: "xs[j := x] ! i = (if i = j \<and> j < length xs then x else xs ! i)"
  by (cases "j < length xs") (auto simp: nth_list_update list_update_beyond)

lemma step_phases_at:
  assumes "i < length (phases h)"
  shows "phases (step rnd e h) ! i = phases h ! i \<or>
   (e = Click i \<and> phases h ! i = Active \<and> phases (step rnd e h) ! i = Gathering) \<or>
   (e = GatherTimeout i \<and> phases (step rnd e h) ! i = Closing) \<or>
   (e = ClosingTimeout i \<and> phases (step rnd e h) ! i = Closed) \<or>
   (\<exists>j w. e = ClosingTimeout j \<and> i = j + 1 \<and> j < length (boxes h) \<and> boxes h ! j = Some w \<and>
      closingTimer w \<and> phases (step rnd e h) ! i = Active) \<or>
   (e = ShakeTimeout \<and> 0 < shakeTimers h \<and> phases (step rnd e h) = [Active, Idle, Idle])"
proof (cases e)
  case (Click j)
  with assms show ?thesis by (auto simp: handleClick_def nth_upd)
next
  case (Frame j)
  then show ?thesis by (auto split: option.splits)
next
  case (GatherTimeout j)
  with assms show ?thesis
    by (auto simp: handleGatherDone_def nth_upd split: option.splits)
next
  case (ClosingTimeout j)
  with assms show ?thesis
    by (auto simp: handleClosingDone_def Let_def nth_upd split: option.splits)
next
  case StickTimeout
  then show ?thesis by (auto simp: handleDeployDone_def Let_def split: option.splits)
next
  case DefineDoneTimeout
  then show ?thesis by (auto simp: handleDefineDone_def Let_def split: option.splits)
next
  case DefineUnmountTimeout
  then show ?thesis by (auto split: option.splits)
next
  case ShakeTimeout
  then show ?thesis by (auto simp: shakeTimeout_def)
qed

lemma inv_order:
  assumes "hero_inv h" and "j < 3" and "phases h ! j = Closing" and "j + 1 < 3"
  shows "phases h ! (j + 1) = Idle"
proof -
  from assms(2) have "j = 0 \<or> j = 1 \<or> j = 2" by auto
  with assms show ?thesis
    by (auto simp: hero_inv_def in_loop_def in_vignette_def)
qed

lemma box_edges:
  "box_trans a b a' b' \<Longrightarrow>
     a' = a \<or> (a = Idle \<and> a' = Active) \<or> (a = Active \<and> a' = Gathering) \<or>
     (a = Gathering \<and> a' = Closing) \<or> (a = Closing \<and> a' = Closed) \<or>
     (a = Closed \<and> (a' = Idle \<or> a' = Active))"
  by (auto simp: box_trans_def split: option.splits)

lemma ids_nth:
  assumes "ids_ok ps" and "p \<in> set ps"
  shows "p_id p < length ps \<and> positions ps ! p_id p = (p_x p, p_y p)"
proof -
  from assms(2) obtain k where k: "k < length ps" "p = ps ! k"
    by (auto simp: in_set_conv_nth)
  from assms(1) k(1) have "map p_id ps ! k = [0..<length ps] ! k" by (simp add: ids_ok_def)
  with k have "p_id p = k" by simp
  with k show ?thesis by (simp add: positions_def)
qed

lemmas eval_defs = init_def render_def renderBox_def renderWordParticles_def mountWordParticles_def
  resetEffect_def physicsEffect_def physicsCleanup_def gatheringEffect_def gatheringCleanup_def
  closingEffect_def closingCleanup_def boxStick_def boxDefine_def mountStick_def renderStick_def
  stickEffect_def stickCleanup_def defineEffect_def defineCleanup_def mountDefine_def renderDefine_def
  handleClick_def handleGatherDone_def handleClosingDone_def handleDeployDone_def handleDefineDone_def
  shakeTimeout_def allClosed_def showScene_def showDefineScene_def BOX_DATA_def Let_def
  stickTimeout_def

lemma createParticles_nonempty [simp]: "createParticles r (w # ws) \<noteq> []"
  by (simp add: createParticles_def Let_def)

section \<open>The state machine: claims\<close>

text \<open>
  C7. A click on box \<open>i\<close> sets its phase to \<open>gathering\<close> when the phase is \<open>active\<close>, and
  changes nothing at all, in any box, when it is not.
\<close>
theorem click_only_active:
  "(i < length (phases h) \<and> phases h ! i = Active \<longrightarrow>
      phases (step rnd (Click i) h) = (phases h)[i := Gathering]) \<and>
   (\<not> (i < length (phases h) \<and> phases h ! i = Active) \<longrightarrow> step rnd (Click i) h = h)"
  by (simp add: handleClick_def)

theorem click_only_active_witness:
  "(0 < length (phases (init (\<lambda>i k. 0))) \<and> phases (init (\<lambda>i k. 0)) ! 0 = Active \<and>
    phases (step (\<lambda>i k. 0) (Click 0) (init (\<lambda>i k. 0))) = (phases (init (\<lambda>i k. 0)))[0 := Gathering]) \<and>
   (phases (init (\<lambda>i k. 0)) ! 1 = Idle \<and>
    step (\<lambda>i k. 0) (Click 1) (init (\<lambda>i k. 0)) = init (\<lambda>i k. 0))"
proof -
  have a: "0 < length (phases (init (\<lambda>i k. 0))) \<and> phases (init (\<lambda>i k. 0)) ! 0 = Active"
    by (simp add: init_def)
  have b: "phases (init (\<lambda>i k. 0)) ! 1 = Idle"
    by (simp add: init_def)
  then have c: "\<not> (1 < length (phases (init (\<lambda>i k. 0))) \<and> phases (init (\<lambda>i k. 0)) ! 1 = Active)"
    by simp
  from a b c click_only_active [of 0 "init (\<lambda>i k. 0)" "\<lambda>i k. 0"]
    click_only_active [of 1 "init (\<lambda>i k. 0)" "\<lambda>i k. 0"]
  show ?thesis by blast
qed

text \<open>
  C4. The boxes start as \<open>[active, idle, idle]\<close>; click, gather timeout and closing
  timeout of box 0 give \<open>[closed, active, idle]\<close>, the same for boxes 1 and 2 give
  \<open>[closed, closed, closed]\<close>, where \<open>showScene\<close> holds on the \<open>deploy\<close> box alone and its
  stick-figure scene is mounted with its timeout set. \<open>handleClosingDone i\<close> closes box
  \<open>i\<close> and, when \<open>i\<close> is not the last box, makes box \<open>i + 1\<close> active.
\<close>
theorem three_box_cycle:
  "phases (init rnd) = [Active, Idle, Idle] \<and>
   phases (run rnd (cycle 0) (init rnd)) = [Closed, Active, Idle] \<and>
   phases (run rnd (cycle 0 @ cycle 1) (init rnd)) = [Closed, Closed, Active] \<and>
   phases (run rnd (cycle 0 @ cycle 1 @ cycle 2) (init rnd)) = [Closed, Closed, Closed] \<and>
   allClosed (run rnd (cycle 0 @ cycle 1 @ cycle 2) (init rnd)) \<and>
   map (showScene (run rnd (cycle 0 @ cycle 1 @ cycle 2) (init rnd))) BOX_DATA = [False, False, True] \<and>
   stickScene (run rnd (cycle 0 @ cycle 1 @ cycle 2) (init rnd)) =
     Some \<lparr>sf_sceneKey = 1, sf_done = False, sf_timer = True, sf_active = True\<rparr> \<and>
   stickScene (run rnd (cycle 0 @ cycle 1) (init rnd)) = None \<and>
   phases (handleClosingDone i h) =
     (if i + 1 < length (phases h) then (phases h)[i := Closed, i + 1 := Active]
      else (phases h)[i := Closed])"
  by (simp add: cycle_def eval_defs)

text \<open>
  C9, as stated, fails: a render with \<open>active\<close> true of a scene that is already active
  runs no effect, so the counter is not incremented and nothing restarts.
\<close>
theorem reactivation_counterexample:
  "sf_sceneKey (renderStick True (mountStick True)) = sf_sceneKey (mountStick True) \<and>
   renderStick True (mountStick True) = mountStick True \<and>
   ds_sceneKey (renderDefine True (mountDefine True)) = ds_sceneKey (mountDefine True) \<and>
   renderDefine True (mountDefine True) = mountDefine True"
  by (simp add: renderStick_def mountStick_def stickEffect_def renderDefine_def mountDefine_def
      defineEffect_def)

text \<open>
  C9, amended. A scene's effect depends on \<open>active\<close> alone. When \<open>active\<close> turns true, on
  mount or after a render with \<open>active\<close> false, the counter \<open>sceneKey\<close> is incremented by one,
  \<open>done\<close> is cleared and the timeouts are set. When \<open>active\<close> turns false the cleanup clears
  the pending timeouts and the counter keeps its value; unmounting the scene drops it.
  A render with \<open>active\<close> unchanged changes nothing. The timeouts are cancelled by the
  cleanup, not by the counter.
\<close>
theorem scene_activation:
  "sf_sceneKey (mountStick True) = 1 \<and> sf_timer (mountStick True) \<and> \<not> sf_done (mountStick True) \<and>
   (\<not> sf_active s \<longrightarrow>
      sf_sceneKey (renderStick True s) = sf_sceneKey s + 1 \<and> sf_timer (renderStick True s) \<and>
      \<not> sf_done (renderStick True s) \<and> sf_active (renderStick True s)) \<and>
   (sf_active s \<longrightarrow>
      renderStick True s = s \<and> \<not> sf_timer (renderStick False s) \<and>
      sf_sceneKey (renderStick False s) = sf_sceneKey s \<and> \<not> sf_active (renderStick False s)) \<and>
   boxStick False (Some s) = None \<and>
   stickTimeout s = s\<lparr>sf_done := True, sf_timer := False\<rparr> \<and>
   ds_sceneKey (mountDefine True) = 1 \<and> ds_tDone (mountDefine True) \<and>
   ds_tUnmount (mountDefine True) \<and> \<not> ds_done (mountDefine True) \<and>
   (\<not> ds_active d \<longrightarrow>
      ds_sceneKey (renderDefine True d) = ds_sceneKey d + 1 \<and> ds_tDone (renderDefine True d) \<and>
      ds_tUnmount (renderDefine True d) \<and> \<not> ds_done (renderDefine True d) \<and>
      ds_active (renderDefine True d)) \<and>
   (ds_active d \<longrightarrow>
      renderDefine True d = d \<and> \<not> ds_tDone (renderDefine False d) \<and>
      \<not> ds_tUnmount (renderDefine False d) \<and>
      ds_sceneKey (renderDefine False d) = ds_sceneKey d \<and> \<not> ds_active (renderDefine False d)) \<and>
   boxDefine False (Some d) = None"
  by (simp add: renderStick_def mountStick_def stickEffect_def stickCleanup_def boxStick_def
      stickTimeout_def renderDefine_def mountDefine_def defineEffect_def defineCleanup_def
      boxDefine_def)

theorem scene_activation_witness:
  "(\<not> sf_active (renderStick False (mountStick True)) \<and>
    sf_sceneKey (renderStick True (renderStick False (mountStick True))) = 2 \<and>
    sf_timer (renderStick True (renderStick False (mountStick True)))) \<and>
   (sf_active (mountStick True) \<and> \<not> sf_timer (renderStick False (mountStick True))) \<and>
   (\<not> ds_active (renderDefine False (mountDefine True)) \<and>
    ds_sceneKey (renderDefine True (renderDefine False (mountDefine True))) = 2 \<and>
    ds_tDone (renderDefine True (renderDefine False (mountDefine True)))) \<and>
   (ds_active (mountDefine True) \<and> \<not> ds_tDone (renderDefine False (mountDefine True)))"
proof -
  have a: "\<not> sf_active (renderStick False (mountStick True))" "sf_active (mountStick True)"
    "sf_sceneKey (renderStick False (mountStick True)) = 1"
    by (simp_all add: renderStick_def mountStick_def stickEffect_def stickCleanup_def)
  have b: "\<not> ds_active (renderDefine False (mountDefine True))" "ds_active (mountDefine True)"
    "ds_sceneKey (renderDefine False (mountDefine True)) = 1"
    by (simp_all add: renderDefine_def mountDefine_def defineEffect_def defineCleanup_def)
  from a b
    scene_activation [of "renderStick False (mountStick True)" "renderDefine False (mountDefine True)"]
    scene_activation [of "mountStick True" "mountDefine True"]
  show ?thesis by simp
qed

text \<open>
  C1. In every reachable state of the screen and for every box, a step leaves the box's
  phase as it is or moves it along \<open>idle \<rightarrow> active\<close>, \<open>active \<rightarrow> gathering\<close> (the click on
  that box), \<open>gathering \<rightarrow> closing\<close> (that box's gather timeout),
  \<open>closing \<rightarrow> closed\<close> (that box's closing timeout), or from \<open>closed\<close> back to the start
  at the reset of the loop: no phase is skipped or entered twice in a loop. The box is
  in \<open>gathering\<close> exactly while its gather timeout is pending and in \<open>closing\<close> exactly
  while its closing timeout is pending; the firing of the timeout, which is the call of
  the completion callback, moves the box on, so the callback is called once for each
  entry. A run of the effect with the \<open>fired\<close> flag already set sets no further timeout.
\<close>
theorem box_lifecycle:
  assumes "reachable h" and "i < 3"
  shows "(phases (step rnd e h) ! i = phases h ! i \<or>
          (phases h ! i = Idle \<and> phases (step rnd e h) ! i = Active) \<or>
          (phases h ! i = Active \<and> phases (step rnd e h) ! i = Gathering \<and> e = Click i) \<or>
          (phases h ! i = Gathering \<and> phases (step rnd e h) ! i = Closing \<and> e = GatherTimeout i) \<or>
          (phases h ! i = Closing \<and> phases (step rnd e h) ! i = Closed \<and> e = ClosingTimeout i) \<or>
          (phases h ! i = Closed \<and> e = ShakeTimeout \<and>
             phases (step rnd e h) = [Active, Idle, Idle])) \<and>
         (phases h ! i = Gathering \<longleftrightarrow> (\<exists>w. boxes h ! i = Some w \<and> gatherTimer w)) \<and>
         (phases h ! i = Closing \<longleftrightarrow> (\<exists>w. boxes h ! i = Some w \<and> closingTimer w)) \<and>
         (phases h ! i = Gathering \<longrightarrow> phases (step rnd (GatherTimeout i) h) ! i = Closing) \<and>
         (phases h ! i = Closing \<longrightarrow> phases (step rnd (ClosingTimeout i) h) ! i = Closed) \<and>
         (gatherFired w \<longrightarrow> gatherTimer (gatheringEffect Gathering w) = gatherTimer w) \<and>
         (closingFired w \<longrightarrow> closingTimer (closingEffect Closing w) = closingTimer w)"
proof -
  let ?a = "phases h ! i" and ?a' = "phases (step rnd e h) ! i"
  from assms(1) have inv: "hero_inv h" by (rule reachable_inv)
  from inv_nth [OF inv assms(2)] have len: "length (phases h) = 3" "length (boxes h) = 3"
    and ok: "box_ok (resetKey h) ?a (boxes h ! i)" by simp_all
  have edges: "?a' = ?a \<or> (?a = Idle \<and> ?a' = Active) \<or> (?a = Active \<and> ?a' = Gathering) \<or>
     (?a = Gathering \<and> ?a' = Closing) \<or> (?a = Closing \<and> ?a' = Closed) \<or>
     (?a = Closed \<and> (?a' = Idle \<or> ?a' = Active))"
    by (rule box_edges [OF trans_nth [OF inv assms(2)]])
  from len assms(2) have il: "i < length (phases h)" by simp
  have by_event: "?a' = ?a \<or>
     (e = Click i \<and> ?a = Active \<and> ?a' = Gathering) \<or>
     (e = GatherTimeout i \<and> ?a' = Closing) \<or>
     (e = ClosingTimeout i \<and> ?a' = Closed) \<or>
     (\<exists>j w. e = ClosingTimeout j \<and> i = j + 1 \<and> j < length (boxes h) \<and> boxes h ! j = Some w \<and>
        closingTimer w \<and> ?a' = Active) \<or>
     (e = ShakeTimeout \<and> 0 < shakeTimers h \<and> phases (step rnd e h) = [Active, Idle, Idle])"
    by (rule step_phases_at [OF il])
  have nxt: "?a = Idle" if j: "i = j + 1" "j < length (boxes h)" "boxes h ! j = Some w'"
      "closingTimer w'" for j w'
  proof -
    from j(1) assms(2) have j3: "j < 3" "j + 1 < 3" by simp_all
    from inv_nth [OF inv j3(1)] j(3) have "box_ok (resetKey h) (phases h ! j) (Some w')" by simp
    with j(4) have "phases h ! j = Closing" using box_ok_timers by blast
    from inv_order [OF inv j3(1) this j3(2)] j(1) show ?thesis by simp
  qed
  from by_event consider
      (same) "?a' = ?a"
    | (click) "e = Click i" "?a = Active" "?a' = Gathering"
    | (gather) "e = GatherTimeout i" "?a' = Closing"
    | (closing) "e = ClosingTimeout i" "?a' = Closed"
    | (succ) j w' where "e = ClosingTimeout j" "i = j + 1" "j < length (boxes h)"
        "boxes h ! j = Some w'" "closingTimer w'" "?a' = Active"
    | (shake) "e = ShakeTimeout" "phases (step rnd e h) = [Active, Idle, Idle]"
    by blast
  then have seq: "?a' = ?a \<or>
          (?a = Idle \<and> ?a' = Active) \<or>
          (?a = Active \<and> ?a' = Gathering \<and> e = Click i) \<or>
          (?a = Gathering \<and> ?a' = Closing \<and> e = GatherTimeout i) \<or>
          (?a = Closing \<and> ?a' = Closed \<and> e = ClosingTimeout i) \<or>
          (?a = Closed \<and> e = ShakeTimeout \<and> phases (step rnd e h) = [Active, Idle, Idle])"
  proof cases
    case same
    then show ?thesis by simp
  next
    case click
    then show ?thesis by simp
  next
    case gather
    with edges show ?thesis by auto
  next
    case closing
    with edges show ?thesis by auto
  next
    case (succ j w')
    from succ(6) nxt [OF succ(2-5)] show ?thesis by simp
  next
    case shake
    from assms(2) have "i = 0 \<or> i = 1 \<or> i = 2" by auto
    with shake(2) have "?a' = Active \<or> ?a' = Idle" by auto
    with edges shake show ?thesis by auto
  qed
  have both: "(?a = Gathering \<longleftrightarrow> (\<exists>w. boxes h ! i = Some w \<and> gatherTimer w)) \<and>
      (?a = Closing \<longleftrightarrow> (\<exists>w. boxes h ! i = Some w \<and> closingTimer w))"
  proof (cases "boxes h ! i")
    case None
    with ok show ?thesis by simp
  next
    case (Some w')
    with ok box_ok_timers [of "resetKey h" ?a w'] show ?thesis by simp
  qed
  then have timers: "(?a = Gathering \<longleftrightarrow> (\<exists>w. boxes h ! i = Some w \<and> gatherTimer w))"
      "(?a = Closing \<longleftrightarrow> (\<exists>w. boxes h ! i = Some w \<and> closingTimer w))"
    by simp_all
  have fire_g: "?a = Gathering \<longrightarrow> phases (step rnd (GatherTimeout i) h) ! i = Closing"
  proof
    assume "?a = Gathering"
    with timers(1) obtain w' where "boxes h ! i = Some w'" "gatherTimer w'" by blast
    with len assms(2) show "phases (step rnd (GatherTimeout i) h) ! i = Closing"
      by (simp add: handleGatherDone_def)
  qed
  have fire_c: "?a = Closing \<longrightarrow> phases (step rnd (ClosingTimeout i) h) ! i = Closed"
  proof
    assume "?a = Closing"
    with timers(2) obtain w' where "boxes h ! i = Some w'" "closingTimer w'" by blast
    with len assms(2) show "phases (step rnd (ClosingTimeout i) h) ! i = Closed"
      by (simp add: handleClosingDone_def Let_def nth_upd)
  qed
  have guard: "gatherFired w \<longrightarrow> gatherTimer (gatheringEffect Gathering w) = gatherTimer w"
    "closingFired w \<longrightarrow> closingTimer (closingEffect Closing w) = closingTimer w"
    by (simp_all add: gatheringEffect_def closingEffect_def)
  show ?thesis
    by (intro conjI) (fact seq timers fire_g fire_c guard)+
qed

theorem box_lifecycle_witness:
  "reachable (run (\<lambda>i k. 0) [Click 0] (init (\<lambda>i k. 0))) \<and> (0::nat) < 3 \<and>
   phases (run (\<lambda>i k. 0) [Click 0] (init (\<lambda>i k. 0))) ! 0 = Gathering \<and>
   phases (step (\<lambda>i k. 0) (GatherTimeout 0) (run (\<lambda>i k. 0) [Click 0] (init (\<lambda>i k. 0)))) ! 0 = Closing \<and>
   reachable (run (\<lambda>i k. 0) [Click 0, GatherTimeout 0] (init (\<lambda>i k. 0))) \<and>
   phases (run (\<lambda>i k. 0) [Click 0, GatherTimeout 0] (init (\<lambda>i k. 0))) ! 0 = Closing \<and>
   phases (step (\<lambda>i k. 0) (ClosingTimeout 0)
             (run (\<lambda>i k. 0) [Click 0, GatherTimeout 0] (init (\<lambda>i k. 0)))) ! 0 = Closed \<and>
   gatherFired (mountWordParticles (\<lambda>k. 0) [] Gathering 0) \<and>
   gatherTimer (gatheringEffect Gathering (mountWordParticles (\<lambda>k. 0) [] Gathering 0)) =
     gatherTimer (mountWordParticles (\<lambda>k. 0) [] Gathering 0) \<and>
   closingFired (mountWordParticles (\<lambda>k. 0) [] Closing 0) \<and>
   closingTimer (closingEffect Closing (mountWordParticles (\<lambda>k. 0) [] Closing 0)) =
     closingTimer (mountWordParticles (\<lambda>k. 0) [] Closing 0)"
proof -
  let ?r = "(\<lambda>i k. 0) :: nat \<Rightarrow> nat \<Rightarrow> real"
  let ?g = "run ?r [Click 0] (init ?r)" and ?c = "run ?r [Click 0, GatherTimeout 0] (init ?r)"
  let ?wg = "mountWordParticles (\<lambda>k. 0) [] Gathering 0"
  let ?wc = "mountWordParticles (\<lambda>k. 0) [] Closing 0"
  have rg: "reachable ?g" and rc: "reachable ?c"
    by (rule reachable_run [OF reach_init])+
  have three: "(0::nat) < 3" by simp
  have pg: "phases ?g ! 0 = Gathering" and pc: "phases ?c ! 0 = Closing"
    by (simp_all add: eval_defs)
  have fired: "gatherFired ?wg" "closingFired ?wc"
    by (simp_all add: mountWordParticles_def resetEffect_def physicsEffect_def
        gatheringEffect_def closingEffect_def)
  from pg box_lifecycle [OF rg three, of ?r "GatherTimeout 0" ?wg]
  have a: "phases (step ?r (GatherTimeout 0) ?g) ! 0 = Closing" by blast
  from fired(1) box_lifecycle [OF rg three, of ?r "GatherTimeout 0" ?wg]
  have b: "gatherTimer (gatheringEffect Gathering ?wg) = gatherTimer ?wg" by blast
  from pc box_lifecycle [OF rc three, of ?r "ClosingTimeout 0" ?wc]
  have c: "phases (step ?r (ClosingTimeout 0) ?c) ! 0 = Closed" by blast
  from fired(2) box_lifecycle [OF rc three, of ?r "ClosingTimeout 0" ?wc]
  have d: "closingTimer (closingEffect Closing ?wc) = closingTimer ?wc" by blast
  show ?thesis
    by (intro conjI) (fact rg three pg a rc pc c fired b d)+
qed

lemma shaking_inv:
  assumes "hero_inv h"
  shows "(isShaking h \<longleftrightarrow> 0 < shakeTimers h) \<and> (isShaking h \<longrightarrow> in_vignette h) \<and>
         (defineScene h \<noteq> None \<longrightarrow> in_vignette h)"
  using assms by (auto simp: hero_inv_def in_loop_def in_vignette_def)

lemma step_isShaking:
  "isShaking (step rnd e h) \<Longrightarrow>
     isShaking h \<or> (e = DefineDoneTimeout \<and> defineScene h \<noteq> None)"
  by (cases e)
    (auto simp: handleClick_def handleGatherDone_def handleClosingDone_def handleDeployDone_def
      handleDefineDone_def shakeTimeout_def Let_def split: option.splits if_splits)

text \<open>
  C5. In a reachable state: when the completion timeout of the define scene is pending,
  its firing sets the shake flag, and the firing of the shake timeout after it resets
  the phases to \<open>[active, idle, idle]\<close>, clears the flags, increments \<open>resetKey\<close> by
  one and mounts the \<open>WordParticles\<close> of every box anew. A step changes \<open>resetKey\<close> only
  when it is the shake timeout firing while the boxes shake, and then by exactly one;
  the boxes shake only with all boxes closed, the shake is set only by the completion
  of the define scene, and the reset clears it and returns the phases to the start.
  Over one full loop from the initial state \<open>resetKey\<close> is \<open>0\<close> up to the shake timeout
  and \<open>1\<close> after it. A new mount, and a render of a mounted idle or active
  \<open>WordParticles\<close> with a changed \<open>resetKey\<close>, discard the particles and the snapshot and
  create the particles again.
\<close>
theorem loop_reset:
  assumes "reachable h"
  shows "(defineScene h = Some d \<and> ds_tDone d \<longrightarrow>
            isShaking (step r1 DefineDoneTimeout h) \<and>
            phases (step r2 ShakeTimeout (step r1 DefineDoneTimeout h)) = [Active, Idle, Idle] \<and>
            resetKey (step r2 ShakeTimeout (step r1 DefineDoneTimeout h)) = resetKey h + 1 \<and>
            \<not> isShaking (step r2 ShakeTimeout (step r1 DefineDoneTimeout h)) \<and>
            \<not> defineSceneActive (step r2 ShakeTimeout (step r1 DefineDoneTimeout h)) \<and>
            boxes (step r2 ShakeTimeout (step r1 DefineDoneTimeout h)) =
              [Some (mountWordParticles (r2 0) (snd (snd (snd (BOX_DATA ! 0)))) Active (resetKey h + 1)),
               Some (mountWordParticles (r2 1) (snd (snd (snd (BOX_DATA ! 1)))) Idle (resetKey h + 1)),
               Some (mountWordParticles (r2 2) (snd (snd (snd (BOX_DATA ! 2)))) Idle (resetKey h + 1))]) \<and>
         resetKey (step rnd e h) =
           (if e = ShakeTimeout \<and> isShaking h then resetKey h + 1 else resetKey h) \<and>
         (isShaking h \<longrightarrow>
            allClosed h \<and> phases (step rnd ShakeTimeout h) = [Active, Idle, Idle] \<and>
            \<not> isShaking (step rnd ShakeTimeout h)) \<and>
         (\<not> isShaking h \<and> isShaking (step rnd e h) \<longrightarrow> e = DefineDoneTimeout \<and> allClosed h) \<and>
         resetKey (init rnd) = 0 \<and>
         resetKey (run rnd (cycle 0 @ cycle 1 @ cycle 2 @ [StickTimeout, DefineDoneTimeout])
                     (init rnd)) = 0 \<and>
         resetKey (run rnd (cycle 0 @ cycle 1 @ cycle 2 @ [StickTimeout, DefineDoneTimeout, ShakeTimeout])
                     (init rnd)) = 1 \<and>
         phases (run rnd (cycle 0 @ cycle 1 @ cycle 2 @ [StickTimeout, DefineDoneTimeout, ShakeTimeout])
                     (init rnd)) = [Active, Idle, Idle] \<and>
         (ph = Idle \<or> ph = Active \<longrightarrow>
            particlesRef (mountWordParticles r words ph rk) = createParticles r words \<and>
            frozenRef (mountWordParticles r words ph rk) = None) \<and>
         ((ph = Idle \<or> ph = Active) \<and> rk \<noteq> depResetKey w \<longrightarrow>
            particlesRef (renderWordParticles r words ph rk w) = createParticles r words \<and>
            frozenRef (renderWordParticles r words ph rk w) = None \<and>
            \<not> gatherFired (renderWordParticles r words ph rk w) \<and>
            \<not> closingFired (renderWordParticles r words ph rk w))"
proof -
  from assms have inv: "hero_inv h" by (rule reachable_inv)
  note sh = shaking_inv [OF inv]
  have reset: "defineScene h = Some d \<and> ds_tDone d \<longrightarrow>
            isShaking (step r1 DefineDoneTimeout h) \<and>
            phases (step r2 ShakeTimeout (step r1 DefineDoneTimeout h)) = [Active, Idle, Idle] \<and>
            resetKey (step r2 ShakeTimeout (step r1 DefineDoneTimeout h)) = resetKey h + 1 \<and>
            \<not> isShaking (step r2 ShakeTimeout (step r1 DefineDoneTimeout h)) \<and>
            \<not> defineSceneActive (step r2 ShakeTimeout (step r1 DefineDoneTimeout h)) \<and>
            boxes (step r2 ShakeTimeout (step r1 DefineDoneTimeout h)) =
              [Some (mountWordParticles (r2 0) (snd (snd (snd (BOX_DATA ! 0)))) Active (resetKey h + 1)),
               Some (mountWordParticles (r2 1) (snd (snd (snd (BOX_DATA ! 1)))) Idle (resetKey h + 1)),
               Some (mountWordParticles (r2 2) (snd (snd (snd (BOX_DATA ! 2)))) Idle (resetKey h + 1))]"
  proof
    assume d: "defineScene h = Some d \<and> ds_tDone d"
    with sh have v: "in_vignette h" by simp
    from vignette_boxes [OF inv v] have b: "boxes h = [None, None, None]" .
    from v d have p: "phases h = [Closed, Closed, Closed]" "\<not> isShaking h"
      "shakeTimers h = 0" "defineSceneActive h"
      by (auto simp: in_vignette_def)
    let ?h1 = "step r1 DefineDoneTimeout h"
    from d p b have h1: "isShaking ?h1" "shakeTimers ?h1 = 1" "resetKey ?h1 = resetKey h"
      "boxes ?h1 = [None, None, None]" "phases ?h1 = [Closed, Closed, Closed]"
      by (simp_all add: handleDefineDone_def render_boxes box_closed)
    let ?h2 = "step r2 ShakeTimeout ?h1"
    from h1 have h2: "phases ?h2 = [Active, Idle, Idle]" "resetKey ?h2 = resetKey h + 1"
      "\<not> isShaking ?h2" "\<not> defineSceneActive ?h2"
      "boxes ?h2 =
         [Some (mountWordParticles (r2 0) (snd (snd (snd (BOX_DATA ! 0)))) Active (resetKey h + 1)),
          Some (mountWordParticles (r2 1) (snd (snd (snd (BOX_DATA ! 1)))) Idle (resetKey h + 1)),
          Some (mountWordParticles (r2 2) (snd (snd (snd (BOX_DATA ! 2)))) Idle (resetKey h + 1))]"
      by (simp_all add: shakeTimeout_def render_boxes renderBox_def)
    show "isShaking ?h1 \<and> phases ?h2 = [Active, Idle, Idle] \<and> resetKey ?h2 = resetKey h + 1 \<and>
        \<not> isShaking ?h2 \<and> \<not> defineSceneActive ?h2 \<and>
        boxes ?h2 =
         [Some (mountWordParticles (r2 0) (snd (snd (snd (BOX_DATA ! 0)))) Active (resetKey h + 1)),
          Some (mountWordParticles (r2 1) (snd (snd (snd (BOX_DATA ! 1)))) Idle (resetKey h + 1)),
          Some (mountWordParticles (r2 2) (snd (snd (snd (BOX_DATA ! 2)))) Idle (resetKey h + 1))]"
      by (intro conjI) (fact h1(1) h2)+
  qed
  have once: "resetKey (step rnd e h) =
           (if e = ShakeTimeout \<and> isShaking h then resetKey h + 1 else resetKey h)"
    using sh by (simp add: step_resetKey)
  have shaking: "isShaking h \<longrightarrow>
            allClosed h \<and> phases (step rnd ShakeTimeout h) = [Active, Idle, Idle] \<and>
            \<not> isShaking (step rnd ShakeTimeout h)"
  proof
    assume s: "isShaking h"
    with sh have "in_vignette h" "0 < shakeTimers h" by simp_all
    then show "allClosed h \<and> phases (step rnd ShakeTimeout h) = [Active, Idle, Idle] \<and>
            \<not> isShaking (step rnd ShakeTimeout h)"
      by (simp add: in_vignette_def allClosed_def shakeTimeout_def)
  qed
  have cause: "\<not> isShaking h \<and> isShaking (step rnd e h) \<longrightarrow> e = DefineDoneTimeout \<and> allClosed h"
  proof
    assume a: "\<not> isShaking h \<and> isShaking (step rnd e h)"
    with step_isShaking [of rnd e h] have e: "e = DefineDoneTimeout" "defineScene h \<noteq> None"
      by simp_all
    with sh have "in_vignette h" by simp
    then have "allClosed h" by (simp add: in_vignette_def allClosed_def)
    with e show "e = DefineDoneTimeout \<and> allClosed h" by simp
  qed
  have k0: "resetKey (init rnd) = 0"
    by (simp add: init_def)
  have k1: "resetKey (run rnd (cycle 0 @ cycle 1 @ cycle 2 @ [StickTimeout, DefineDoneTimeout])
                     (init rnd)) = 0"
    by (simp add: cycle_def eval_defs)
  have k2: "resetKey (run rnd (cycle 0 @ cycle 1 @ cycle 2 @ [StickTimeout, DefineDoneTimeout, ShakeTimeout])
                     (init rnd)) = 1"
    "phases (run rnd (cycle 0 @ cycle 1 @ cycle 2 @ [StickTimeout, DefineDoneTimeout, ShakeTimeout])
                     (init rnd)) = [Active, Idle, Idle]"
    by (simp_all add: cycle_def eval_defs)
  have mount: "ph = Idle \<or> ph = Active \<longrightarrow>
            particlesRef (mountWordParticles r words ph rk) = createParticles r words \<and>
            frozenRef (mountWordParticles r words ph rk) = None"
    by (auto simp: mountWordParticles_def resetEffect_def physicsEffect_def gatheringEffect_def
        closingEffect_def)
  have bump: "(ph = Idle \<or> ph = Active) \<and> rk \<noteq> depResetKey w \<longrightarrow>
            particlesRef (renderWordParticles r words ph rk w) = createParticles r words \<and>
            frozenRef (renderWordParticles r words ph rk w) = None \<and>
            \<not> gatherFired (renderWordParticles r words ph rk w) \<and>
            \<not> closingFired (renderWordParticles r words ph rk w)"
    by (auto simp: renderWordParticles_def resetEffect_def physicsEffect_def physicsCleanup_def
        gatheringEffect_def gatheringCleanup_def closingEffect_def closingCleanup_def Let_def)
  show ?thesis
    by (intro conjI) (fact reset once shaking cause k0 k1 k2 mount bump)+
qed

theorem loop_reset_witness:
  "reachable (run (\<lambda>i k. 0) (cycle 0 @ cycle 1 @ cycle 2 @ [StickTimeout]) (init (\<lambda>i k. 0))) \<and>
   defineScene (run (\<lambda>i k. 0) (cycle 0 @ cycle 1 @ cycle 2 @ [StickTimeout]) (init (\<lambda>i k. 0))) =
     Some \<lparr>ds_sceneKey = 1, ds_done = False, ds_tDone = True, ds_tUnmount = True, ds_active = True\<rparr> \<and>
   ds_tDone \<lparr>ds_sceneKey = 1, ds_done = False, ds_tDone = True, ds_tUnmount = True, ds_active = True\<rparr> \<and>
   phases (step (\<lambda>i k. 0) ShakeTimeout (step (\<lambda>i k. 0) DefineDoneTimeout
     (run (\<lambda>i k. 0) (cycle 0 @ cycle 1 @ cycle 2 @ [StickTimeout]) (init (\<lambda>i k. 0))))) =
     [Active, Idle, Idle] \<and>
   resetKey (step (\<lambda>i k. 0) ShakeTimeout (step (\<lambda>i k. 0) DefineDoneTimeout
     (run (\<lambda>i k. 0) (cycle 0 @ cycle 1 @ cycle 2 @ [StickTimeout]) (init (\<lambda>i k. 0))))) =
     resetKey (run (\<lambda>i k. 0) (cycle 0 @ cycle 1 @ cycle 2 @ [StickTimeout]) (init (\<lambda>i k. 0))) + 1 \<and>
   isShaking (step (\<lambda>i k. 0) DefineDoneTimeout
     (run (\<lambda>i k. 0) (cycle 0 @ cycle 1 @ cycle 2 @ [StickTimeout]) (init (\<lambda>i k. 0)))) \<and>
   allClosed (run (\<lambda>i k. 0) (cycle 0 @ cycle 1 @ cycle 2 @ [StickTimeout]) (init (\<lambda>i k. 0))) \<and>
   reachable (run (\<lambda>i k. 0) (cycle 0 @ cycle 1 @ cycle 2 @ [StickTimeout, DefineDoneTimeout])
     (init (\<lambda>i k. 0))) \<and>
   isShaking (run (\<lambda>i k. 0) (cycle 0 @ cycle 1 @ cycle 2 @ [StickTimeout, DefineDoneTimeout])
     (init (\<lambda>i k. 0))) \<and>
   allClosed (run (\<lambda>i k. 0) (cycle 0 @ cycle 1 @ cycle 2 @ [StickTimeout, DefineDoneTimeout])
     (init (\<lambda>i k. 0))) \<and>
   resetKey (step (\<lambda>i k. 0) ShakeTimeout
     (run (\<lambda>i k. 0) (cycle 0 @ cycle 1 @ cycle 2 @ [StickTimeout, DefineDoneTimeout])
        (init (\<lambda>i k. 0)))) =
     resetKey (run (\<lambda>i k. 0) (cycle 0 @ cycle 1 @ cycle 2 @ [StickTimeout, DefineDoneTimeout])
        (init (\<lambda>i k. 0))) + 1 \<and>
   (1::nat) \<noteq> depResetKey (mountWordParticles (\<lambda>k. 0) [] Gathering 0) \<and>
   particlesRef (renderWordParticles (\<lambda>k. 0) [''Risk''] Active 1
      (mountWordParticles (\<lambda>k. 0) [] Gathering 0)) = createParticles (\<lambda>k. 0) [''Risk'']"
proof -
  let ?r = "(\<lambda>i k. 0) :: nat \<Rightarrow> nat \<Rightarrow> real"
  let ?v = "run ?r (cycle 0 @ cycle 1 @ cycle 2 @ [StickTimeout]) (init ?r)"
  let ?s = "run ?r (cycle 0 @ cycle 1 @ cycle 2 @ [StickTimeout, DefineDoneTimeout]) (init ?r)"
  let ?d = "\<lparr>ds_sceneKey = 1, ds_done = False, ds_tDone = True, ds_tUnmount = True, ds_active = True\<rparr>"
  let ?w = "mountWordParticles (\<lambda>k. 0) [] Gathering 0"
  have rv: "reachable ?v" and rs: "reachable ?s" by (rule reachable_run [OF reach_init])+
  have dv: "defineScene ?v = Some ?d" and nv: "\<not> isShaking ?v" and ss: "isShaking ?s"
    by (simp_all add: cycle_def eval_defs)
  have td: "ds_tDone ?d" by simp
  have key: "(1::nat) \<noteq> depResetKey ?w"
    by (simp add: mountWordParticles_def resetEffect_def physicsEffect_def
        gatheringEffect_def closingEffect_def)
  have ph: "Active = Idle \<or> Active = Active" by simp
  note iv = loop_reset [OF rv, where d = ?d and ?r1.0 = ?r and ?r2.0 = ?r and rnd = ?r
      and e = DefineDoneTimeout and ph = Active and r = "\<lambda>k. 0" and words = "[''Risk'']"
      and rk = 1 and w = ?w]
  note iw = loop_reset [OF rs, where d = ?d and ?r1.0 = ?r and ?r2.0 = ?r and rnd = ?r
      and e = ShakeTimeout and ph = Active and r = "\<lambda>k. 0" and words = "[''Risk'']"
      and rk = 1 and w = ?w]
  from iv dv td have a: "phases (step ?r ShakeTimeout (step ?r DefineDoneTimeout ?v)) = [Active, Idle, Idle]"
    by blast
  from iv dv td have b: "resetKey (step ?r ShakeTimeout (step ?r DefineDoneTimeout ?v)) = resetKey ?v + 1"
    by blast
  from iv dv td have c: "isShaking (step ?r DefineDoneTimeout ?v)" by blast
  from iv nv c have d: "allClosed ?v" by blast
  from iw ss have e: "allClosed ?s" by blast
  from iw ss have f: "resetKey (step ?r ShakeTimeout ?s) = resetKey ?s + 1"
    by (simp del: run.simps step.simps)
  from iv key ph have g: "particlesRef (renderWordParticles (\<lambda>k. 0) [''Risk''] Active 1 ?w) =
      createParticles (\<lambda>k. 0) [''Risk'']"
    by blast
  show ?thesis
    by (intro conjI) (fact rv dv td a b c d rs ss e f key g)+
qed

text \<open>
  C8. In a reachable state: the click that takes a box into \<open>gathering\<close> stores the
  positions of its particles in \<open>frozenRef\<close>, the entry at index \<open>p.id\<close> being the position
  of particle \<open>p\<close>; a step that keeps the box within \<open>gathering\<close> and \<open>closing\<close> changes
  neither the snapshot nor the particles; during these phases every particle is drawn
  at \<open>frozen[p.id]\<close>, which is the position it was frozen at; while the box is \<open>idle\<close> or
  \<open>active\<close> there is no snapshot and particles are drawn at their live positions. The
  snapshot the gathering effect stores depends on the particles alone, not on any
  earlier snapshot. For any component state, the drawn position during gathering and
  closing is read from the snapshot by particle id, whatever the live position is, and
  is the live position when there is no snapshot or in any other phase.
\<close>
theorem frozen_snapshot:
  assumes "reachable h" and "i < 3"
  shows "(phases h ! i = Active \<longrightarrow>
            (\<exists>w w' fr. boxes h ! i = Some w \<and> boxes (step rnd (Click i) h) ! i = Some w' \<and>
               frozenRef w' = Some fr \<and> fr = map (\<lambda>p. (p_x p, p_y p)) (particlesRef w) \<and>
               particlesRef w' = particlesRef w \<and>
               (\<forall>p \<in> set (particlesRef w).
                  p_id p < length fr \<and> fr ! p_id p = (p_x p, p_y p) \<and>
                  renderPosition Gathering w' p = Some (fr ! p_id p)))) \<and>
         ((phases h ! i = Gathering \<or> phases h ! i = Closing) \<and>
          (phases (step rnd e h) ! i = Gathering \<or> phases (step rnd e h) ! i = Closing) \<longrightarrow>
            (\<exists>w w'. boxes h ! i = Some w \<and> boxes (step rnd e h) ! i = Some w' \<and>
               frozenRef w' = frozenRef w \<and> particlesRef w' = particlesRef w)) \<and>
         (phases h ! i = Gathering \<or> phases h ! i = Closing \<longrightarrow>
            (\<exists>w fr. boxes h ! i = Some w \<and> frozenRef w = Some fr \<and>
               fr = map (\<lambda>p. (p_x p, p_y p)) (particlesRef w) \<and>
               map p_id (particlesRef w) = [0..<length fr] \<and>
               (\<forall>p \<in> set (particlesRef w).
                  p_id p < length fr \<and> fr ! p_id p = (p_x p, p_y p) \<and>
                  renderPosition (phases h ! i) w p = Some (fr ! p_id p)))) \<and>
         (phases h ! i = Idle \<or> phases h ! i = Active \<longrightarrow>
            (\<exists>w. boxes h ! i = Some w \<and> frozenRef w = None \<and>
               (\<forall>p. renderPosition (phases h ! i) w p = Some (p_x p, p_y p)))) \<and>
         frozenRef (gatheringEffect Gathering w0) =
           Some (map (\<lambda>p. (p_x p, p_y p)) (particlesRef w0)) \<and>
         (frozenRef w0 = Some fr0 \<and> (ph = Gathering \<or> ph = Closing) \<longrightarrow>
            renderPosition ph w0 q =
              (if p_id q < length fr0 then Some (fr0 ! p_id q) else None)) \<and>
         (frozenRef w0 = None \<or> (ph \<noteq> Gathering \<and> ph \<noteq> Closing) \<longrightarrow>
            renderPosition ph w0 q = Some (p_x q, p_y q))"
proof -
  let ?a = "phases h ! i" and ?b = "boxes h ! i"
  from assms(1) have inv: "hero_inv h" by (rule reachable_inv)
  from inv_nth [OF inv assms(2)] have len: "length (phases h) = 3" "length (boxes h) = 3"
    and ok: "box_ok (resetKey h) ?a ?b" by simp_all
  have tr: "box_trans ?a ?b (phases (step r e' h) ! i) (boxes (step r e' h) ! i)" for r e'
    by (rule trans_nth [OF inv assms(2)])
  have keyed: "frozenRef w0 = Some fr0 \<and> (ph = Gathering \<or> ph = Closing) \<longrightarrow>
            renderPosition ph w0 q =
              (if p_id q < length fr0 then Some (fr0 ! p_id q) else None)"
    by (auto simp: renderPosition_def)
  have live: "frozenRef w0 = None \<or> (ph \<noteq> Gathering \<and> ph \<noteq> Closing) \<longrightarrow>
            renderPosition ph w0 q = Some (p_x q, p_y q)"
    by (auto simp: renderPosition_def split: option.splits)
  have entry: "?a = Active \<longrightarrow>
            (\<exists>w w' fr. ?b = Some w \<and> boxes (step rnd (Click i) h) ! i = Some w' \<and>
               frozenRef w' = Some fr \<and> fr = map (\<lambda>p. (p_x p, p_y p)) (particlesRef w) \<and>
               particlesRef w' = particlesRef w \<and>
               (\<forall>p \<in> set (particlesRef w).
                  p_id p < length fr \<and> fr ! p_id p = (p_x p, p_y p) \<and>
                  renderPosition Gathering w' p = Some (fr ! p_id p)))"
  proof
    assume a: "?a = Active"
    with len assms(2) have "phases (step rnd (Click i) h) ! i = Gathering"
      by (simp add: handleClick_def)
    with a tr [of rnd "Click i"] obtain w w' where w: "?b = Some w"
      "boxes (step rnd (Click i) h) ! i = Some w'"
      "frozenRef w' = Some (positions (particlesRef w))" "particlesRef w' = particlesRef w"
      by (auto simp: box_trans_def split: option.splits)
    from ok w(1) have ids: "ids_ok (particlesRef w)" by (simp add: box_ok_def)
    let ?fr = "map (\<lambda>p. (p_x p, p_y p)) (particlesRef w)"
    from w(3) have fz: "frozenRef w' = Some ?fr" by (simp add: positions_def)
    have per: "p_id p < length ?fr \<and> ?fr ! p_id p = (p_x p, p_y p) \<and>
        renderPosition Gathering w' p = Some (?fr ! p_id p)"
      if "p \<in> set (particlesRef w)" for p
      using ids_nth [OF ids that] fz by (simp add: renderPosition_def positions_def)
    from w(1,2,4) fz per show "\<exists>w w' fr. ?b = Some w \<and>
               boxes (step rnd (Click i) h) ! i = Some w' \<and>
               frozenRef w' = Some fr \<and> fr = map (\<lambda>p. (p_x p, p_y p)) (particlesRef w) \<and>
               particlesRef w' = particlesRef w \<and>
               (\<forall>p \<in> set (particlesRef w).
                  p_id p < length fr \<and> fr ! p_id p = (p_x p, p_y p) \<and>
                  renderPosition Gathering w' p = Some (fr ! p_id p))"
      by blast
  qed
  have held: "(?a = Gathering \<or> ?a = Closing) \<and>
          (phases (step rnd e h) ! i = Gathering \<or> phases (step rnd e h) ! i = Closing) \<longrightarrow>
            (\<exists>w w'. ?b = Some w \<and> boxes (step rnd e h) ! i = Some w' \<and>
               frozenRef w' = frozenRef w \<and> particlesRef w' = particlesRef w)"
  proof
    assume a: "(?a = Gathering \<or> ?a = Closing) \<and>
          (phases (step rnd e h) ! i = Gathering \<or> phases (step rnd e h) ! i = Closing)"
    with ok obtain w where w: "?b = Some w" "\<not> rafRef w"
      by (cases ?b) (auto simp: box_ok_def)
    then have "animationFrame w = w" by (simp add: animationFrame_def)
    with a w tr [of rnd e] show "\<exists>w w'. ?b = Some w \<and> boxes (step rnd e h) ! i = Some w' \<and>
               frozenRef w' = frozenRef w \<and> particlesRef w' = particlesRef w"
      by (auto simp: box_trans_def split: option.splits)
  qed
  have source: "?a = Gathering \<or> ?a = Closing \<longrightarrow>
            (\<exists>w fr. ?b = Some w \<and> frozenRef w = Some fr \<and>
               fr = map (\<lambda>p. (p_x p, p_y p)) (particlesRef w) \<and>
               map p_id (particlesRef w) = [0..<length fr] \<and>
               (\<forall>p \<in> set (particlesRef w).
                  p_id p < length fr \<and> fr ! p_id p = (p_x p, p_y p) \<and>
                  renderPosition ?a w p = Some (fr ! p_id p)))"
  proof
    assume a: "?a = Gathering \<or> ?a = Closing"
    with ok obtain w where w: "?b = Some w" "frozenRef w = Some (positions (particlesRef w))"
      "ids_ok (particlesRef w)"
      by (cases ?b) (auto simp: box_ok_def)
    let ?fr = "map (\<lambda>p. (p_x p, p_y p)) (particlesRef w)"
    from w(2) have fz: "frozenRef w = Some ?fr" by (simp add: positions_def)
    from w(3) have idx: "map p_id (particlesRef w) = [0..<length ?fr]"
      by (simp add: ids_ok_def)
    have per: "p_id p < length ?fr \<and> ?fr ! p_id p = (p_x p, p_y p) \<and>
        renderPosition ?a w p = Some (?fr ! p_id p)"
      if "p \<in> set (particlesRef w)" for p
      using ids_nth [OF w(3) that] a fz by (auto simp: renderPosition_def positions_def)
    from w(1) fz idx per show "\<exists>w fr. ?b = Some w \<and> frozenRef w = Some fr \<and>
               fr = map (\<lambda>p. (p_x p, p_y p)) (particlesRef w) \<and>
               map p_id (particlesRef w) = [0..<length fr] \<and>
               (\<forall>p \<in> set (particlesRef w).
                  p_id p < length fr \<and> fr ! p_id p = (p_x p, p_y p) \<and>
                  renderPosition ?a w p = Some (fr ! p_id p))"
      by blast
  qed
  have gone: "?a = Idle \<or> ?a = Active \<longrightarrow>
      (\<exists>w. ?b = Some w \<and> frozenRef w = None \<and>
         (\<forall>p. renderPosition ?a w p = Some (p_x p, p_y p)))"
    using ok by (cases ?b) (auto simp: box_ok_def renderPosition_def)
  have fresh: "frozenRef (gatheringEffect Gathering w0) =
           Some (map (\<lambda>p. (p_x p, p_y p)) (particlesRef w0))"
    by (simp add: gatheringEffect_def Let_def)
  show ?thesis
    by (intro conjI) (fact entry held source gone fresh keyed live)+
qed

theorem frozen_snapshot_witness:
  "reachable (init (\<lambda>i k. 0)) \<and> (0::nat) < 3 \<and> phases (init (\<lambda>i k. 0)) ! 0 = Active \<and>
   frozenRef (the (boxes (init (\<lambda>i k. 0)) ! 0)) = None \<and>
   frozenRef (the (boxes (step (\<lambda>i k. 0) (Click 0) (init (\<lambda>i k. 0))) ! 0)) =
     Some (map (\<lambda>p. (p_x p, p_y p)) (particlesRef (the (boxes (init (\<lambda>i k. 0)) ! 0)))) \<and>
   reachable (run (\<lambda>i k. 0) [Click 0] (init (\<lambda>i k. 0))) \<and>
   phases (run (\<lambda>i k. 0) [Click 0] (init (\<lambda>i k. 0))) ! 0 = Gathering \<and>
   phases (step (\<lambda>i k. 0) (GatherTimeout 0) (run (\<lambda>i k. 0) [Click 0] (init (\<lambda>i k. 0)))) ! 0 = Closing \<and>
   frozenRef (the (boxes (step (\<lambda>i k. 0) (GatherTimeout 0)
       (run (\<lambda>i k. 0) [Click 0] (init (\<lambda>i k. 0)))) ! 0)) =
     frozenRef (the (boxes (run (\<lambda>i k. 0) [Click 0] (init (\<lambda>i k. 0))) ! 0)) \<and>
   renderPosition Gathering (the (boxes (run (\<lambda>i k. 0) [Click 0] (init (\<lambda>i k. 0))) ! 0))
       (hd (particlesRef (the (boxes (run (\<lambda>i k. 0) [Click 0] (init (\<lambda>i k. 0))) ! 0)))) =
     Some (the (frozenRef (the (boxes (run (\<lambda>i k. 0) [Click 0] (init (\<lambda>i k. 0))) ! 0))) !
           p_id (hd (particlesRef (the (boxes (run (\<lambda>i k. 0) [Click 0] (init (\<lambda>i k. 0))) ! 0))))) \<and>
   the (frozenRef (the (boxes (run (\<lambda>i k. 0) [Click 0] (init (\<lambda>i k. 0))) ! 0))) !
       p_id (hd (particlesRef (the (boxes (run (\<lambda>i k. 0) [Click 0] (init (\<lambda>i k. 0))) ! 0)))) =
     (p_x (hd (particlesRef (the (boxes (run (\<lambda>i k. 0) [Click 0] (init (\<lambda>i k. 0))) ! 0)))),
      p_y (hd (particlesRef (the (boxes (run (\<lambda>i k. 0) [Click 0] (init (\<lambda>i k. 0))) ! 0))))) \<and>
   frozenRef ((mountWordParticles (\<lambda>k. 0) [] Gathering 0)\<lparr>frozenRef := Some [(1, 2)]\<rparr>) =
     Some [(1, 2)] \<and>
   renderPosition Gathering ((mountWordParticles (\<lambda>k. 0) [] Gathering 0)\<lparr>frozenRef := Some [(1, 2)]\<rparr>)
     lone = Some (1, 2) \<and>
   frozenRef (mountWordParticles (\<lambda>k. 0) [] Idle 0) = None \<and>
   renderPosition Gathering (mountWordParticles (\<lambda>k. 0) [] Idle 0) lone = Some (1 / 10, 80)"
proof -
  let ?r = "(\<lambda>i k. 0) :: nat \<Rightarrow> nat \<Rightarrow> real"
  let ?g = "run ?r [Click 0] (init ?r)"
  let ?wk = "(mountWordParticles (\<lambda>k. 0) [] Gathering 0)\<lparr>frozenRef := Some [(1, 2)]\<rparr>"
  let ?wl = "mountWordParticles (\<lambda>k. 0) [] Idle 0"
  have r0: "reachable (init ?r)" by (rule reach_init)
  have rg: "reachable ?g" by (rule reachable_run [OF reach_init])
  have three: "(0::nat) < 3" by simp
  have p0: "phases (init ?r) ! 0 = Active" and pg: "phases ?g ! 0 = Gathering"
    and pc: "phases (step ?r (GatherTimeout 0) ?g) ! 0 = Closing"
    by (simp_all add: eval_defs)
  have ne: "hd (particlesRef (the (boxes ?g ! 0))) \<in> set (particlesRef (the (boxes ?g ! 0)))"
    by (simp add: eval_defs)
  have fk: "frozenRef ?wk = Some [(1, 2)]" by simp
  have fl: "frozenRef ?wl = None"
    by (simp add: mountWordParticles_def resetEffect_def physicsEffect_def
        gatheringEffect_def closingEffect_def)
  note t0 = frozen_snapshot [OF r0 three, where rnd = ?r and e = "Click 0" and ?w0.0 = ?wl
      and ?fr0.0 = "[(1, 2)]" and ph = Gathering and q = lone]
  note tg = frozen_snapshot [OF rg three, where rnd = ?r and e = "GatherTimeout 0" and ?w0.0 = ?wk
      and ?fr0.0 = "[(1, 2)]" and ph = Gathering and q = lone]
  from t0 p0 obtain w where w: "boxes (init ?r) ! 0 = Some w" "frozenRef w = None"
    by blast
  then have a: "frozenRef (the (boxes (init ?r) ! 0)) = None" by simp
  from t0 p0 obtain u u' fr where u: "boxes (init ?r) ! 0 = Some u"
    "boxes (step ?r (Click 0) (init ?r)) ! 0 = Some u'"
    "frozenRef u' = Some fr" "fr = map (\<lambda>p. (p_x p, p_y p)) (particlesRef u)"
    by blast
  then have b: "frozenRef (the (boxes (step ?r (Click 0) (init ?r)) ! 0)) =
      Some (map (\<lambda>p. (p_x p, p_y p)) (particlesRef (the (boxes (init ?r) ! 0))))"
    by simp
  from tg pg pc obtain x x' where x: "boxes ?g ! 0 = Some x"
    "boxes (step ?r (GatherTimeout 0) ?g) ! 0 = Some x'" "frozenRef x' = frozenRef x"
    by blast
  then have c: "frozenRef (the (boxes (step ?r (GatherTimeout 0) ?g) ! 0)) =
      frozenRef (the (boxes ?g ! 0))"
    by simp
  from tg pg obtain y fy where y: "boxes ?g ! 0 = Some y" "frozenRef y = Some fy"
    "\<forall>p \<in> set (particlesRef y). p_id p < length fy \<and> fy ! p_id p = (p_x p, p_y p) \<and>
       renderPosition (phases ?g ! 0) y p = Some (fy ! p_id p)"
    by blast
  from y(1) ne have "hd (particlesRef y) \<in> set (particlesRef y)"
    by (simp del: run.simps)
  with y(3) have "fy ! p_id (hd (particlesRef y)) = (p_x (hd (particlesRef y)), p_y (hd (particlesRef y)))"
    "renderPosition (phases ?g ! 0) y (hd (particlesRef y)) = Some (fy ! p_id (hd (particlesRef y)))"
    by blast+
  with y(1,2) pg have d: "renderPosition Gathering (the (boxes ?g ! 0))
       (hd (particlesRef (the (boxes ?g ! 0)))) =
     Some (the (frozenRef (the (boxes ?g ! 0))) ! p_id (hd (particlesRef (the (boxes ?g ! 0)))))"
    and e: "the (frozenRef (the (boxes ?g ! 0))) ! p_id (hd (particlesRef (the (boxes ?g ! 0)))) =
     (p_x (hd (particlesRef (the (boxes ?g ! 0)))), p_y (hd (particlesRef (the (boxes ?g ! 0)))))"
    by (simp_all del: run.simps)
  from tg fk have "renderPosition Gathering ?wk lone =
      (if p_id lone < length [(1::real, 2::real)] then Some ([(1, 2)] ! p_id lone) else None)"
    by blast
  then have k: "renderPosition Gathering ?wk lone = Some (1, 2)"
    by (simp add: lone_def)
  from t0 fl have "renderPosition Gathering ?wl lone = Some (p_x lone, p_y lone)"
    by blast
  then have l: "renderPosition Gathering ?wl lone = Some (1 / 10, 80)"
    by (simp add: lone_def)
  show ?thesis
    by (intro conjI) (fact r0 three p0 a b rg pg pc c d e fk k fl l)+
qed

end
